theory Spec2Isabelle
  imports Complex_Main
begin

section \<open>Data model of the distance store and of the topology tree\<close>

text \<open>
  Object types (\<open>hwloc_obj_type_t\<close>) are an enumeration that starts at
  \<open>HWLOC_OBJ_SYSTEM = 0\<close> and indexes the array \<open>topology->os_distances\<close>; they are
  natural numbers here.  A \<open>float\<close> is a real number (no NaN, no infinity, no rounding),
  an \<open>unsigned\<close> a natural number (a subtraction or a product that can wrap around is
  written with its wrap-around; array sizes and flat indexes \<open>i * nbobjs + j\<close> are taken
  to fit, that is \<open>nbobjs * nbobjs\<close> below \<open>2^32\<close>), a cpuset (\<open>hwloc_bitmap_t\<close>) a set of natural
  numbers, and a pointer that may be \<open>NULL\<close> an option.
\<close>

record hwloc_distances_s =
  relative_depth :: nat
  dist_nbobjs :: nat
  latency :: "real option list"
  latency_max :: real
  latency_base :: real

datatype hwloc_obj =
  Obj (obj_type: nat) (os_index: nat) (depth: nat) (logical_index: nat)
      (cpuset: "nat set") (group_depth: int)
      (obj_distances: "hwloc_distances_s list") (children: "hwloc_obj list")

record os_distances_s =
  osd_nbobjs :: nat
  osd_objs :: "hwloc_obj option list option"
  osd_indexes :: "nat list option"
  osd_distances :: "real list option"

record hwloc_topology =
  os_distances :: "nat \<Rightarrow> os_distances_s"
  root_obj :: hwloc_obj

datatype errno = EINVAL

text \<open>
  What ends a call without a result: a write outside an array (undefined behaviour in C),
  a failed \<open>assert\<close>, a loop that does not end.
\<close>

datatype fault = OutOfBounds | AssertionFailed | Diverges

text \<open>
  \<open>FLT_MAX\<close> and \<open>FLT_MIN\<close> of \<open>float.h\<close> for IEEE single precision: the largest finite
  value and the smallest positive normal value.
\<close>

definition FLT_MAX :: real where
  "FLT_MAX = 340282346638528859811704183484516925440"

definition FLT_MIN :: real where
  "FLT_MIN = 1 / 2 ^ 126"

section \<open>DistanceStore: \<open>hwloc_topology__set_distance_matrix\<close>\<close>

text \<open>
  The two nested loops that look for the same index twice:
  \<open>for(i=0; i<nbobjs; i++) for(j=i+1; j<nbobjs; j++) if (indexes[i] == indexes[j])\<close>.
\<close>

definition same_index_twice :: "nat \<Rightarrow> nat list \<Rightarrow> bool" where
  "same_index_twice nbobjs indexes =
     list_ex (\<lambda>i. list_ex (\<lambda>j. indexes ! i = indexes ! j) [i + 1..<nbobjs]) [0..<nbobjs]"

text \<open>
  The result pairs the return value with the topology after the call:
  \<open>Inl EINVAL\<close> is the return value \<open>-1\<close> with \<open>errno = EINVAL\<close>, \<open>Inr ()\<close> the
  return value \<open>0\<close>.
\<close>

definition hwloc_topology__set_distance_matrix ::
  "hwloc_topology \<Rightarrow> nat \<Rightarrow> nat \<Rightarrow> nat list \<Rightarrow> real list \<Rightarrow> (errno + unit) \<times> hwloc_topology" where
  "hwloc_topology__set_distance_matrix topology type nbobjs indexes distances =
     (if same_index_twice nbobjs indexes then (Inl EINVAL, topology)
      else (Inr (),
            topology\<lparr>os_distances := (os_distances topology)
              (type := (os_distances topology type)
                 \<lparr>osd_nbobjs := nbobjs, osd_indexes := Some indexes,
                  osd_distances := Some distances\<rparr>)\<rparr>))"

text \<open>The public entry point copies its arrays and gives the copies to the function above.\<close>

definition hwloc_topology_set_distance_matrix ::
  "hwloc_topology \<Rightarrow> nat \<Rightarrow> nat \<Rightarrow> nat list \<Rightarrow> real list \<Rightarrow> (errno + unit) \<times> hwloc_topology" where
  "hwloc_topology_set_distance_matrix topology type nbobjs indexes distances =
     (let indexes' = take nbobjs indexes; distances' = take (nbobjs * nbobjs) distances
      in hwloc_topology__set_distance_matrix topology type nbobjs indexes' distances')"

section \<open>EnvDistanceParser: \<open>hwloc_get_type_distances_from_string\<close>\<close>

text \<open>
  A C string is the list of its characters before the terminating NUL: reading at or past
  the end gives NUL.  \<open>strspn\<close> is the length of the longest prefix made of accepted
  characters.  The conversions of the C library are parameters of the parser:
  \<open>strtoul tmp\<close> and \<open>strtof tmp\<close> give the value converted and the rest of the string
  (\<open>next\<close>); \<open>sscanf tmp\<close> gives the values that \<open>sscanf(tmp, "%u*%u*%u", ...)\<close> converts,
  in order, so that its return value is their number.
\<close>

definition char_at :: "string \<Rightarrow> nat \<Rightarrow> char" where
  "char_at s k = (if k < length s then s ! k else CHR 0x00)"

definition strspn :: "string \<Rightarrow> string \<Rightarrow> nat" where
  "strspn s accept = length (takeWhile (\<lambda>c. c \<in> set accept) s)"

text \<open>
  The loop \<open>while (1)\<close> that counts the indexes: it returns the position reached and the
  count.
\<close>

function count_indexes :: "string \<Rightarrow> nat \<Rightarrow> string \<times> nat" where
  "count_indexes tmp nbobjs =
     (let size' = strspn tmp ''0123456789''
      in if char_at tmp size' \<noteq> CHR '','' then (drop size' tmp, nbobjs + 1)
         else count_indexes (drop (size' + 1) tmp) (nbobjs + 1))"
  by pat_completeness auto
termination
  by (relation "measure (\<lambda>(tmp, nbobjs). length tmp)")
     (auto simp: char_at_def split: if_splits)

declare count_indexes.simps [simp del]

text \<open>
  The loop \<open>for(i=0; i<nbobjs; i++) { indexes[i] = strtoul(tmp, &next, 0); tmp = next+1; }\<close>
  on the positions that remain; it returns the indexes and the position reached.
  \<open>strtoul\<close> gives an \<open>unsigned long\<close> and \<open>indexes[i]\<close> is an \<open>unsigned\<close>: the value
  stored is the value converted modulo \<open>2^32\<close>.
\<close>

fun parse_indexes ::
  "(string \<Rightarrow> nat \<times> string) \<Rightarrow> nat list \<Rightarrow> string \<Rightarrow> nat list \<Rightarrow> nat list \<times> string" where
  "parse_indexes strtoul [] tmp indexes = (indexes, tmp)"
| "parse_indexes strtoul (i # rest) tmp indexes =
     parse_indexes strtoul rest (drop 1 (snd (strtoul tmp)))
       (indexes[i := fst (strtoul tmp) mod 4294967296])"

text \<open>
  The matrix generated for \<open>x\<close> groups of \<open>y\<close> groups of \<open>z\<close> elements, written into the
  array obtained from \<open>calloc\<close>.
\<close>

definition grouping_distances :: "nat \<Rightarrow> nat \<Rightarrow> nat \<Rightarrow> real list" where
  "grouping_distances nbobjs y z =
     fold (\<lambda>i. fold (\<lambda>j distances.
                       distances[i * nbobjs + j :=
                         (if i = j then 1
                          else if i div z = j div z then 2
                          else if i div z div y = j div z div y then 4
                          else 8)])
                    [0..<nbobjs])
          [0..<nbobjs] (replicate (nbobjs * nbobjs) 0)"

text \<open>
  The comma separated list of distances; \<open>None\<close> when the string ends before the last
  value.
\<close>

fun parse_distances ::
  "(string \<Rightarrow> real \<times> string) \<Rightarrow> nat \<Rightarrow> nat list \<Rightarrow> string \<Rightarrow> real list \<Rightarrow> real list option" where
  "parse_distances strtof nbobjs [] tmp distances = Some distances"
| "parse_distances strtof nbobjs (i # rest) tmp distances =
     (if char_at (snd (strtof tmp)) 0 = CHR 0x00 \<and> i \<noteq> nbobjs * nbobjs - 1 then None
      else parse_distances strtof nbobjs rest (drop 1 (snd (strtof tmp)))
             (distances[i := fst (strtof tmp)]))"

text \<open>
  The parser returns the topology after the call: unchanged when it ignores the string.
  \<open>x * y * z\<close> is an unsigned product.
\<close>

definition hwloc_get_type_distances_from_string ::
  "(string \<Rightarrow> nat \<times> string) \<Rightarrow> (string \<Rightarrow> nat list) \<Rightarrow> (string \<Rightarrow> real \<times> string)
     \<Rightarrow> hwloc_topology \<Rightarrow> nat \<Rightarrow> string \<Rightarrow> hwloc_topology" where
  "hwloc_get_type_distances_from_string strtoul sscanf strtof topology type string' =
     (let counted = count_indexes string' 0;
          nbobjs = snd counted
      in if char_at (fst counted) 0 \<noteq> CHR '':'' then topology
         else
           (let parsed = parse_indexes strtoul [0..<nbobjs] string' (replicate nbobjs 0);
                indexes = fst parsed;
                tmp = snd parsed;
                scanned = sscanf tmp
            in if 2 \<le> length scanned then
                 (let x = scanned ! 0; y = scanned ! 1;
                      z = (if 3 \<le> length scanned then scanned ! 2 else 1)
                  in if (x * y * z) mod 4294967296 \<noteq> nbobjs then topology
                     else snd (hwloc_topology__set_distance_matrix topology type nbobjs indexes
                                 (grouping_distances nbobjs y z)))
               else
                 (case parse_distances strtof nbobjs [0..<nbobjs * nbobjs] tmp
                         (replicate (nbobjs * nbobjs) 0) of
                    None \<Rightarrow> topology
                  | Some distances \<Rightarrow>
                      snd (hwloc_topology__set_distance_matrix topology type nbobjs indexes
                             distances))))"

text \<open>
  What the conversions of the C library give on the string \<open>0,1,2,3:2*2\<close> and on the
  positions the parser reaches in it.
\<close>

definition example_strtoul :: "string \<Rightarrow> nat \<times> string" where
  "example_strtoul s =
     (if s = ''0,1,2,3:2*2'' then (0, '',1,2,3:2*2'')
      else if s = ''1,2,3:2*2'' then (1, '',2,3:2*2'')
      else if s = ''2,3:2*2'' then (2, '',3:2*2'')
      else if s = ''3:2*2'' then (3, '':2*2'')
      else (0, s))"

text \<open>
  The same for the string \<open>4294967296,0:2*1\<close>, whose first index does not fit an
  \<open>unsigned\<close>.
\<close>

definition wide_strtoul :: "string \<Rightarrow> nat \<times> string" where
  "wide_strtoul s =
     (if s = ''4294967296,0:2*1'' then (4294967296, '',0:2*1'')
      else if s = ''0:2*1'' then (0, '':2*1'')
      else (0, s))"

definition wide_sscanf :: "string \<Rightarrow> nat list" where
  "wide_sscanf s = (if s = ''2*1'' then [2, 1] else [])"

definition example_sscanf :: "string \<Rightarrow> nat list" where
  "example_sscanf s = (if s = ''2*2'' then [2, 2] else [])"

definition example_strtof :: "string \<Rightarrow> real \<times> string" where
  "example_strtof s = (0, s)"

section \<open>IndexResolver: \<open>hwloc_convert_distances_indexes_into_objects\<close>\<close>

lemma size_children: "size_list size (children obj) < size obj"
  by (cases obj) simp

text \<open>
  The depth-first search for an object by type and OS index.  The children of an object
  (\<open>first_child\<close>, then \<open>next_sibling\<close>) are its list \<open>children\<close>; the parameter
  \<open>root\<close> of the source is \<open>root'\<close>, \<open>root\<close> being the n-th root of the reals.
\<close>

function hwloc_find_obj_by_type_and_os_index :: "hwloc_obj \<Rightarrow> nat \<Rightarrow> nat \<Rightarrow> hwloc_obj option"
  and find_in_children :: "hwloc_obj list \<Rightarrow> nat \<Rightarrow> nat \<Rightarrow> hwloc_obj option" where
  "hwloc_find_obj_by_type_and_os_index root' type idx =
     (if obj_type root' = type \<and> os_index root' = idx then Some root'
      else find_in_children (children root') type idx)"
| "find_in_children [] type idx = None"
| "find_in_children (child # siblings) type idx =
     (case hwloc_find_obj_by_type_and_os_index child type idx of
        Some found \<Rightarrow> Some found
      | None \<Rightarrow> find_in_children siblings type idx)"
  by pat_completeness auto

termination
  by (relation "measure (\<lambda>x. case x of Inl (obj, _) \<Rightarrow> size obj
                                   | Inr (objs, _) \<Rightarrow> size_list size objs)")
     (simp_all add: size_children)

declare hwloc_find_obj_by_type_and_os_index.simps [simp del]

text \<open>
  The loop \<open>for(i=0; i<nbobjs; i++)\<close> over the stored indexes, run on the positions
  that remain.  \<open>objs\<close> is the array obtained from \<open>calloc\<close> (every entry \<open>NULL\<close>,
  here \<open>None\<close>); the result \<open>None\<close> is the array freed and set to \<open>NULL\<close> at the first
  index without an object.
\<close>

fun resolve_indexes ::
  "hwloc_obj \<Rightarrow> nat \<Rightarrow> nat list \<Rightarrow> nat list \<Rightarrow> hwloc_obj option list
     \<Rightarrow> hwloc_obj option list option" where
  "resolve_indexes root' type indexes [] objs = Some objs"
| "resolve_indexes root' type indexes (i # rest) objs =
     (case hwloc_find_obj_by_type_and_os_index root' type (indexes ! i) of
        None \<Rightarrow> None
      | Some obj \<Rightarrow> resolve_indexes root' type indexes rest (objs[i := Some obj]))"

definition convert_type :: "nat \<Rightarrow> hwloc_topology \<Rightarrow> hwloc_topology" where
  "convert_type type topology =
     (let nbobjs = osd_nbobjs (os_distances topology type)
      in case osd_indexes (os_distances topology type) of
           None \<Rightarrow> topology
         | Some indexes \<Rightarrow>
             topology\<lparr>os_distances := (os_distances topology)
               (type := (os_distances topology type)
                  \<lparr>osd_objs := resolve_indexes (root_obj topology) type indexes [0..<nbobjs]
                                (replicate nbobjs None)\<rparr>)\<rparr>)"

text \<open>
  The loop over the object types, \<open>HWLOC_OBJ_SYSTEM = 0\<close> up to \<open>HWLOC_OBJ_TYPE_MAX\<close>;
  the latter comes from a header and is the parameter \<open>type_max\<close>.
\<close>

definition hwloc_convert_distances_indexes_into_objects ::
  "nat \<Rightarrow> hwloc_topology \<Rightarrow> hwloc_topology" where
  "hwloc_convert_distances_indexes_into_objects type_max topology =
     fold convert_type [0..<type_max] topology"

text \<open>All the objects of a tree.\<close>

fun tree_objs :: "hwloc_obj \<Rightarrow> hwloc_obj list" where
  "tree_objs (Obj t i d l c g ds cs) = Obj t i d l c g ds cs # concat (map tree_objs cs)"

text \<open>
  A small topology: a machine with two NUMA nodes (type 2, OS indexes 0 and 1), a stored
  matrix for type 2 over the indexes 1, 0 and one for type 3 over the index 5.
\<close>

definition example_topology :: hwloc_topology where
  "example_topology =
     \<lparr>os_distances = (\<lambda>t. \<lparr>osd_nbobjs = 0, osd_objs = None, osd_indexes = None,
                            osd_distances = None\<rparr>)
        (2 := \<lparr>osd_nbobjs = 2, osd_objs = None, osd_indexes = Some [1, 0],
                osd_distances = Some [1, 2, 2, 1]\<rparr>,
         3 := \<lparr>osd_nbobjs = 1, osd_objs = None, osd_indexes = Some [5],
                osd_distances = Some [1]\<rparr>),
      root_obj = Obj 1 0 0 0 {0, 1} 0 []
                   [Obj 2 0 1 0 {0} 0 [] [], Obj 2 1 1 1 {1} 0 [] []]\<rparr>"

section \<open>LogicalNormalizer: \<open>hwloc_setup_distances_from_os_matrix\<close>\<close>

text \<open>
  The union of the cpusets of the objects, the smallest logical index (from \<open>UINT_MAX\<close>),
  and the smallest and the largest raw entry (from \<open>FLT_MAX\<close> and \<open>FLT_MIN\<close>), each
  computed by the loops of the source.
\<close>

definition cpuset_union :: "nat \<Rightarrow> hwloc_obj list \<Rightarrow> nat set" where
  "cpuset_union nbobjs objs = fold (\<lambda>i cpus. cpus \<union> cpuset (objs ! i)) [0..<nbobjs] {}"

definition min_logical_index :: "nat \<Rightarrow> hwloc_obj list \<Rightarrow> nat" where
  "min_logical_index nbobjs objs =
     fold (\<lambda>i minl. if minl > logical_index (objs ! i) then logical_index (objs ! i) else minl)
          [0..<nbobjs] 4294967295"

definition min_max :: "nat \<Rightarrow> real list \<Rightarrow> real \<times> real" where
  "min_max nbobjs osmatrix =
     fold (\<lambda>i. fold (\<lambda>j mm. let val = osmatrix ! (i * nbobjs + j)
                             in (if val < fst mm then val else fst mm,
                                 if val > snd mm then val else snd mm))
                    [0..<nbobjs])
          [0..<nbobjs] (FLT_MAX, FLT_MIN)"

text \<open>
  The new matrix comes from \<open>malloc\<close>: its \<open>nbobjs * nbobjs\<close> cells hold nothing
  (\<open>None\<close>) until written.  A write at a flat index outside the matrix is a fault.  The
  fill writes, for each \<open>i\<close>, the diagonal cell and then, for each \<open>j > i\<close>, the cells
  of \<open>(i, j)\<close> and \<open>(j, i)\<close>, at the rows and columns \<open>logical_index - minl\<close>.
\<close>

definition store :: "nat \<Rightarrow> real \<Rightarrow> fault + real option list \<Rightarrow> fault + real option list" where
  "store k v matrix =
     (case matrix of
        Inl f \<Rightarrow> Inl f
      | Inr cells \<Rightarrow> if k < length cells then Inr (cells[k := Some v]) else Inl OutOfBounds)"

definition fill_latency ::
  "nat \<Rightarrow> hwloc_obj list \<Rightarrow> real list \<Rightarrow> nat \<Rightarrow> real \<Rightarrow> fault + real option list" where
  "fill_latency nbobjs objs osmatrix minl min' =
     fold (\<lambda>i matrix.
             let li = logical_index (objs ! i) - minl
             in fold (\<lambda>j matrix.
                        let lj = logical_index (objs ! j) - minl
                        in store (lj * nbobjs + li) (osmatrix ! (j * nbobjs + i) / min')
                             (store (li * nbobjs + lj) (osmatrix ! (i * nbobjs + j) / min')
                                matrix))
                     [i + 1..<nbobjs]
                     (store (li * nbobjs + li) (osmatrix ! (i * nbobjs + i) / min') matrix))
          [0..<nbobjs] (Inr (replicate (nbobjs * nbobjs) None))"

text \<open>The record appended to \<open>root->distances\<close>.\<close>

definition attach :: "hwloc_obj \<Rightarrow> hwloc_distances_s \<Rightarrow> hwloc_obj" where
  "attach root' d =
     Obj (obj_type root') (os_index root') (depth root') (logical_index root')
         (cpuset root') (group_depth root') (obj_distances root' @ [d]) (children root')"

text \<open>
  The function returns the covering object after the call: as it was when the call
  abandons, with one more record otherwise.  \<open>hwloc_get_obj_covering_cpuset\<close> belongs to the
  tree and is a parameter; \<open>assert(root)\<close> fails when it finds no object.  The source reads
  \<open>objs[0]\<close>, which does not exist when \<open>nbobjs = 0\<close>; \<open>relative_depth\<close> is an unsigned
  difference.
\<close>

definition hwloc_setup_distances_from_os_matrix ::
  "(nat set \<Rightarrow> hwloc_obj option) \<Rightarrow> nat \<Rightarrow> hwloc_obj list \<Rightarrow> real list \<Rightarrow> fault + hwloc_obj" where
  "hwloc_setup_distances_from_os_matrix hwloc_get_obj_covering_cpuset nbobjs objs osmatrix =
     (case hwloc_get_obj_covering_cpuset (cpuset_union nbobjs objs) of
        None \<Rightarrow> Inl AssertionFailed
      | Some root' \<Rightarrow>
          if cpuset_union nbobjs objs \<noteq> cpuset root' then Inr root'
          else if nbobjs = 0 then Inl OutOfBounds
          else
            (let relative_depth' = (depth (objs ! 0) + 4294967296 - depth root') mod 4294967296;
                 minl = min_logical_index nbobjs objs;
                 mm = min_max nbobjs osmatrix
             in if fst mm = 0 then Inr root'
                else case fill_latency nbobjs objs osmatrix minl (fst mm) of
                       Inl f \<Rightarrow> Inl f
                     | Inr matrix \<Rightarrow>
                         Inr (attach root'
                                \<lparr>relative_depth = relative_depth', dist_nbobjs = nbobjs,
                                 latency = matrix, latency_max = snd mm / fst mm,
                                 latency_base = fst mm\<rparr>)))"

text \<open>The two NUMA nodes of the small topology, in the order of its stored indexes 1, 0.\<close>

definition example_nodes :: "hwloc_obj list" where
  "example_nodes = [Obj 2 1 1 1 {1} 0 [] [], Obj 2 0 1 0 {0} 0 [] []]"

definition example_covering :: "nat set \<Rightarrow> hwloc_obj option" where
  "example_covering cpus = (if cpus = {0, 1} then Some (root_obj example_topology) else None)"

text \<open>
  A machine with three NUMA nodes, the middle one without processors, and the two nodes
  that have processors: their logical indexes are 0 and 2.
\<close>

definition sparse_machine :: hwloc_obj where
  "sparse_machine =
     Obj 1 0 0 0 {0, 1} 0 []
       [Obj 2 0 1 0 {0} 0 [] [], Obj 2 1 1 1 {} 0 [] [], Obj 2 2 1 2 {1} 0 [] []]"

definition sparse_nodes :: "hwloc_obj list" where
  "sparse_nodes = [Obj 2 0 1 0 {0} 0 [] [], Obj 2 2 1 2 {1} 0 [] []]"

definition sparse_covering :: "nat set \<Rightarrow> hwloc_obj option" where
  "sparse_covering cpus = (if cpus = {0, 1} then Some sparse_machine else None)"

section \<open>GroupingEngine: clustering by minimal distance\<close>

text \<open>
  \<open>(*distances)[i][j]\<close>, the matrix being the flat array \<open>_distances\<close> of
  \<open>nbobjs * nbobjs\<close> entries.
\<close>

definition entry :: "nat \<Rightarrow> real list \<Rightarrow> nat \<Rightarrow> nat \<Rightarrow> real" where
  "entry nbobjs distances i j = distances ! (i * nbobjs + j)"

definition find_min_distance :: "nat \<Rightarrow> real list \<Rightarrow> real" where
  "find_min_distance nbobjs distances =
     fold (\<lambda>i. fold (\<lambda>j min_distance.
                       if entry nbobjs distances i j < min_distance
                       then entry nbobjs distances i j else min_distance)
                    [i + 1..<nbobjs])
          [0..<nbobjs] FLT_MAX"

text \<open>
  The state of one scan: the group ids, the size of the group being built and the first
  object found (\<open>-1\<close> is \<open>None\<close>).  \<open>connect\<close> is the body of the loop over \<open>k\<close>,
  \<open>rescan\<close> the loop over \<open>j\<close> from \<open>firstfound\<close>, and \<open>grow_group\<close> the loop
  \<open>while (firstfound != -1)\<close>, whose result is \<open>None\<close> if it does not end.
\<close>

record scan =
  s_groupids :: "nat list"
  s_size :: nat
  s_newfirstfound :: "nat option"

definition connect :: "nat \<Rightarrow> real list \<Rightarrow> real \<Rightarrow> nat \<Rightarrow> nat \<Rightarrow> nat \<Rightarrow> scan \<Rightarrow> scan" where
  "connect nbobjs distances min_distance groupid j k s =
     (if s_groupids s ! k = 0 \<and> entry nbobjs distances j k = min_distance
      then s\<lparr>s_groupids := (s_groupids s)[k := groupid],
             s_size := s_size s + 1,
             s_newfirstfound := (if s_newfirstfound s = None then Some k
                                 else s_newfirstfound s)\<rparr>
      else s)"

definition rescan :: "nat \<Rightarrow> real list \<Rightarrow> real \<Rightarrow> nat \<Rightarrow> nat \<Rightarrow> nat list \<Rightarrow> nat \<Rightarrow> scan" where
  "rescan nbobjs distances min_distance groupid firstfound groupids sz =
     fold (\<lambda>j s. if s_groupids s ! j = groupid
                  then fold (connect nbobjs distances min_distance groupid j) [0..<nbobjs] s
                  else s)
          [firstfound..<nbobjs]
          \<lparr>s_groupids = groupids, s_size = sz, s_newfirstfound = None\<rparr>"

partial_function (option) grow_group ::
  "nat \<Rightarrow> real list \<Rightarrow> real \<Rightarrow> nat \<Rightarrow> nat option \<Rightarrow> nat list \<Rightarrow> nat \<Rightarrow> (nat list \<times> nat) option" where
  "grow_group nbobjs distances min_distance groupid firstfound groupids sz =
     (case firstfound of
        None \<Rightarrow> Some (groupids, sz)
      | Some first \<Rightarrow>
          (let s = rescan nbobjs distances min_distance groupid first groupids sz
           in grow_group nbobjs distances min_distance groupid
                (s_newfirstfound s) (s_groupids s) (s_size s)))"

declare grow_group.simps [code]

text \<open>
  The body of the loop over the seeds \<open>i\<close>, on the group ids and the current group id: a
  group of size 1 is cancelled, any other is committed.
\<close>

definition group_from ::
  "nat \<Rightarrow> real list \<Rightarrow> real \<Rightarrow> nat \<Rightarrow> nat list \<Rightarrow> nat \<Rightarrow> (nat list \<times> nat) option" where
  "group_from nbobjs distances min_distance i groupids groupid =
     (if groupids ! i \<noteq> 0 then Some (groupids, groupid)
      else case grow_group nbobjs distances min_distance groupid (Some i)
                  (groupids[i := groupid]) 1 of
             None \<Rightarrow> None
           | Some grown \<Rightarrow>
               if snd grown = 1 then Some ((fst grown)[i := 0], groupid)
               else Some (fst grown, groupid + 1))"

fun build_groups ::
  "nat \<Rightarrow> real list \<Rightarrow> real \<Rightarrow> nat list \<Rightarrow> nat list \<Rightarrow> nat \<Rightarrow> (nat list \<times> nat) option" where
  "build_groups nbobjs distances min_distance [] groupids groupid = Some (groupids, groupid)"
| "build_groups nbobjs distances min_distance (i # rest) groupids groupid =
     (case group_from nbobjs distances min_distance i groupids groupid of
        None \<Rightarrow> None
      | Some st \<Rightarrow> build_groups nbobjs distances min_distance rest (fst st) (snd st))"

text \<open>The result is the return value with the array \<open>groupids\<close> as the call leaves it.\<close>

definition hwloc_setup_group_from_min_distance :: "nat \<Rightarrow> real list \<Rightarrow> (nat \<times> nat list) option" where
  "hwloc_setup_group_from_min_distance nbobjs distances =
     (let groupids = replicate nbobjs 0;
          min_distance = find_min_distance nbobjs distances
      in if min_distance = FLT_MAX then Some (0, groupids)
         else case build_groups nbobjs distances min_distance [0..<nbobjs] groupids 1 of
                None \<Rightarrow> None
              | Some st \<Rightarrow> Some (snd st - 1, fst st))"

section \<open>The clustering returns, and each group it commits has two members\<close>

lemma count_list_update:
  "k < length g \<Longrightarrow>
     count_list (g[k := v]) c + (if g ! k = c then 1 else 0)
       = count_list g c + (if v = c then 1 else 0)"
proof (induction g arbitrary: k)
  case Nil
  then show ?case by simp
next
  case (Cons x xs)
  show ?case
  proof (cases k)
    case 0
    then show ?thesis by simp
  next
    case (Suc k')
    with Cons.prems have "k' < length xs" by simp
    from Cons.IH [OF this] Suc show ?thesis by (auto split: if_splits)
  qed
qed

lemma count_list_assign:
  assumes "k < length g" "g ! k = 0" "groupid \<noteq> 0"
  shows "count_list (g[k := groupid]) groupid = Suc (count_list g groupid)"
    and "Suc (count_list (g[k := groupid]) 0) = count_list g 0"
    and "c \<noteq> 0 \<Longrightarrow> c \<noteq> groupid \<Longrightarrow> count_list (g[k := groupid]) c = count_list g c"
  using count_list_update [OF assms(1), of groupid groupid]
    count_list_update [OF assms(1), of groupid 0]
    count_list_update [OF assms(1), of groupid c] assms
  by auto

text \<open>What one scan keeps true, from the group ids \<open>g0\<close> and the size \<open>sz0\<close> it started with.\<close>

definition scanned :: "nat \<Rightarrow> nat \<Rightarrow> nat list \<Rightarrow> nat \<Rightarrow> scan \<Rightarrow> bool" where
  "scanned nbobjs groupid g0 sz0 s \<longleftrightarrow>
     length (s_groupids s) = nbobjs
   \<and> (\<forall>k < nbobjs. g0 ! k \<noteq> 0 \<longrightarrow> s_groupids s ! k = g0 ! k)
   \<and> (\<forall>c. c \<noteq> 0 \<and> c \<noteq> groupid \<longrightarrow> count_list (s_groupids s) c = count_list g0 c)
   \<and> count_list (s_groupids s) groupid + sz0 = count_list g0 groupid + s_size s
   \<and> (case s_newfirstfound s of
         None \<Rightarrow> count_list (s_groupids s) 0 = count_list g0 0
       | Some _ \<Rightarrow> count_list (s_groupids s) 0 < count_list g0 0)"

lemma connect_scanned:
  assumes "groupid \<noteq> 0" "k < nbobjs" "scanned nbobjs groupid g0 sz0 s"
  shows "scanned nbobjs groupid g0 sz0 (connect nbobjs distances min_distance groupid j k s)"
proof (cases "s_groupids s ! k = 0 \<and> entry nbobjs distances j k = min_distance")
  case False
  then have "connect nbobjs distances min_distance groupid j k s = s"
    unfolding connect_def by (rule if_not_P)
  with assms(3) show ?thesis by simp
next
  case True
  let ?g = "s_groupids s"
  from assms have len: "k < length ?g" by (simp add: scanned_def)
  from True have zero: "?g ! k = 0" by simp
  note upd = count_list_assign [OF len zero assms(1)]
  have keep: "\<forall>i < nbobjs. g0 ! i \<noteq> 0 \<longrightarrow> ?g[k := groupid] ! i = g0 ! i"
  proof (intro allI impI)
    fix i assume i: "i < nbobjs" "g0 ! i \<noteq> 0"
    with assms(3) have eq: "?g ! i = g0 ! i" by (simp add: scanned_def)
    with i(2) zero have "i \<noteq> k" by auto
    with eq show "?g[k := groupid] ! i = g0 ! i" by simp
  qed
  have le: "count_list ?g 0 \<le> count_list g0 0"
    using assms(3) by (auto simp: scanned_def split: option.splits)
  show ?thesis
    using True assms(3) upd keep le
    by (auto simp: connect_def scanned_def split: option.splits)
qed

lemma fold_connect_scanned:
  assumes "groupid \<noteq> 0" "\<forall>k \<in> set ks. k < nbobjs" "scanned nbobjs groupid g0 sz0 s"
  shows "scanned nbobjs groupid g0 sz0
           (fold (connect nbobjs distances min_distance groupid j) ks s)"
  using assms(2,3)
  by (induction ks arbitrary: s) (simp_all add: connect_scanned [OF assms(1)])

lemma fold_scan_scanned:
  assumes "groupid \<noteq> 0" "scanned nbobjs groupid g0 sz0 s"
  shows "scanned nbobjs groupid g0 sz0
           (fold (\<lambda>j s. if s_groupids s ! j = groupid
                         then fold (connect nbobjs distances min_distance groupid j) [0..<nbobjs] s
                         else s) js s)"
  using assms(2)
  by (induction js arbitrary: s) (simp_all add: fold_connect_scanned [OF assms(1)])

lemma rescan_scanned:
  assumes "groupid \<noteq> 0" "length groupids = nbobjs"
  shows "scanned nbobjs groupid groupids sz
           (rescan nbobjs distances min_distance groupid firstfound groupids sz)"
  unfolding rescan_def
  by (rule fold_scan_scanned [OF assms(1)]) (simp add: scanned_def assms(2))

lemma grow_group_returns:
  assumes "groupid \<noteq> 0" "length groupids = nbobjs"
  shows "\<exists>groupids' sz'.
           grow_group nbobjs distances min_distance groupid firstfound groupids sz
             = Some (groupids', sz')
         \<and> length groupids' = nbobjs
         \<and> (\<forall>k < nbobjs. groupids ! k \<noteq> 0 \<longrightarrow> groupids' ! k = groupids ! k)
         \<and> (\<forall>c. c \<noteq> 0 \<and> c \<noteq> groupid \<longrightarrow> count_list groupids' c = count_list groupids c)
         \<and> count_list groupids' groupid + sz = count_list groupids groupid + sz'"
  using assms(2)
proof (induction "count_list groupids 0" arbitrary: firstfound groupids sz rule: less_induct)
  case less
  show ?case
  proof (cases firstfound)
    case None
    then show ?thesis using less.prems by (subst grow_group.simps) simp
  next
    case (Some first)
    let ?s = "rescan nbobjs distances min_distance groupid first groupids sz"
    have sc: "scanned nbobjs groupid groupids sz ?s"
      by (rule rescan_scanned [OF assms(1) less.prems])
    have unfold: "grow_group nbobjs distances min_distance groupid firstfound groupids sz
        = grow_group nbobjs distances min_distance groupid
            (s_newfirstfound ?s) (s_groupids ?s) (s_size ?s)"
      using Some by (subst grow_group.simps) (simp add: Let_def)
    show ?thesis
    proof (cases "s_newfirstfound ?s")
      case None
      have "grow_group nbobjs distances min_distance groupid None (s_groupids ?s) (s_size ?s)
          = Some (s_groupids ?s, s_size ?s)"
        by (subst grow_group.simps) simp
      with None unfold sc show ?thesis by (simp add: scanned_def)
    next
      case (Some first')
      with sc have dec: "count_list (s_groupids ?s) 0 < count_list groupids 0"
        and len: "length (s_groupids ?s) = nbobjs"
        by (simp_all add: scanned_def)
      from less.hyps [OF dec len, of "s_newfirstfound ?s" "s_size ?s"]
      obtain groupids' sz' where r:
        "grow_group nbobjs distances min_distance groupid
           (s_newfirstfound ?s) (s_groupids ?s) (s_size ?s) = Some (groupids', sz')"
        "length groupids' = nbobjs"
        "\<forall>k < nbobjs. s_groupids ?s ! k \<noteq> 0 \<longrightarrow> groupids' ! k = s_groupids ?s ! k"
        "\<forall>c. c \<noteq> 0 \<and> c \<noteq> groupid \<longrightarrow> count_list groupids' c = count_list (s_groupids ?s) c"
        "count_list groupids' groupid + s_size ?s = count_list (s_groupids ?s) groupid + sz'"
        by blast
      from sc have s1: "\<forall>k < nbobjs. groupids ! k \<noteq> 0 \<longrightarrow> s_groupids ?s ! k = groupids ! k"
        and s2: "\<forall>c. c \<noteq> 0 \<and> c \<noteq> groupid \<longrightarrow> count_list (s_groupids ?s) c = count_list groupids c"
        and s3: "count_list (s_groupids ?s) groupid + sz = count_list groupids groupid + s_size ?s"
        by (simp_all add: scanned_def)
      have k: "\<forall>k < nbobjs. groupids ! k \<noteq> 0 \<longrightarrow> groupids' ! k = groupids ! k"
        using r(3) s1 by auto
      have c: "\<forall>c. c \<noteq> 0 \<and> c \<noteq> groupid \<longrightarrow> count_list groupids' c = count_list groupids c"
        using r(4) s2 by auto
      have z: "count_list groupids' groupid + sz = count_list groupids groupid + sz'"
        using r(5) s3 by linarith
      from unfold r(1,2) k c z show ?thesis by simp
    qed
  qed
qed

text \<open>
  What the loop over the seeds keeps true: every group id below the current one is
  committed, with at least two positions, and no position holds a larger id.
\<close>

definition committed :: "nat \<Rightarrow> nat list \<times> nat \<Rightarrow> bool" where
  "committed nbobjs st \<longleftrightarrow>
     (case st of (groupids, groupid) \<Rightarrow>
        length groupids = nbobjs \<and> groupid \<noteq> 0
      \<and> (\<forall>x \<in> set groupids. x < groupid)
      \<and> (\<forall>c. 0 < c \<and> c < groupid \<longrightarrow> 2 \<le> count_list groupids c))"

lemma group_from_committed:
  assumes i: "i < nbobjs" and st: "committed nbobjs (groupids, groupid)"
  shows "\<exists>st'. group_from nbobjs distances min_distance i groupids groupid = Some st'
               \<and> committed nbobjs st'"
proof (cases "groupids ! i \<noteq> 0")
  case True
  with st show ?thesis by (simp add: group_from_def)
next
  case False
  then have zero: "groupids ! i = 0" by simp
  from st have len: "length groupids = nbobjs" and gid: "groupid \<noteq> 0"
    and below: "\<forall>x \<in> set groupids. x < groupid"
    and two: "\<forall>c. 0 < c \<and> c < groupid \<longrightarrow> 2 \<le> count_list groupids c"
    by (simp_all add: committed_def)
  let ?g1 = "groupids[i := groupid]"
  have i': "i < length groupids" using i len by simp
  have fresh: "count_list groupids c = 0" if "groupid \<le> c" for c
    using below that by (auto simp: count_list_0_iff)
  have g1_gid: "count_list ?g1 groupid = 1"
    using count_list_assign(1) [OF i' zero gid] fresh [of groupid] by simp
  have g1_other: "count_list ?g1 c = count_list groupids c" if "c \<noteq> 0" "c \<noteq> groupid" for c
    using count_list_assign(3) [OF i' zero gid that] .
  have len1: "length ?g1 = nbobjs" using len by simp
  from grow_group_returns [OF gid len1, of distances min_distance "Some i" 1]
  obtain groupids' sz where r:
    "grow_group nbobjs distances min_distance groupid (Some i) ?g1 1 = Some (groupids', sz)"
    "length groupids' = nbobjs"
    "\<forall>k < nbobjs. ?g1 ! k \<noteq> 0 \<longrightarrow> groupids' ! k = ?g1 ! k"
    "\<forall>c. c \<noteq> 0 \<and> c \<noteq> groupid \<longrightarrow> count_list groupids' c = count_list ?g1 c"
    "count_list groupids' groupid + 1 = count_list ?g1 groupid + sz"
    by blast
  have at_i: "groupids' ! i = groupid"
    using r(3) i i' gid by simp
  have sz: "count_list groupids' groupid = sz"
    using r(5) g1_gid by simp
  have other: "count_list groupids' c = count_list groupids c" if "c \<noteq> 0" "c \<noteq> groupid" for c
    using r(4) g1_other that by simp
  have le: "x \<le> groupid" if "x \<in> set groupids'" for x
  proof (rule ccontr)
    assume "\<not> x \<le> groupid"
    then have "x \<noteq> 0" "x \<noteq> groupid" "groupid \<le> x" by simp_all
    with other [of x] fresh [of x] have "count_list groupids' x = 0" by simp
    with that show False by (simp add: count_list_0_iff)
  qed
  have i'': "i < length groupids'" using i r(2) by simp
  have "groupid \<in> set groupids'"
    using at_i i'' nth_mem by fastforce
  then have sz_pos: "0 < sz"
    using sz count_list_0_iff [of groupids' groupid] by auto
  show ?thesis
  proof (cases "sz = 1")
    case True
    let ?g2 = "groupids'[i := 0]"
    have res: "group_from nbobjs distances min_distance i groupids groupid
        = Some (?g2, groupid)"
      using zero r(1) True by (simp add: group_from_def)
    have upd: "count_list ?g2 c + (if groupid = c then 1 else 0)
        = count_list groupids' c + (if 0 = c then 1 else 0)" for c
      using count_list_update [OF i'', of 0 c] at_i by simp
    have no_gid: "count_list ?g2 groupid = 0"
      using upd [of groupid] sz True gid by simp
    have keep: "count_list ?g2 c = count_list groupids c" if "c \<noteq> 0" "c \<noteq> groupid" for c
      using upd [of c] other [OF that] that by simp
    have below2: "\<forall>x \<in> set ?g2. x < groupid"
    proof
      fix x assume x: "x \<in> set ?g2"
      then have "x \<in> insert 0 (set groupids')"
        using set_update_subset_insert by fastforce
      with le gid have "x \<le> groupid" by auto
      moreover from x no_gid have "x \<noteq> groupid" by (auto simp: count_list_0_iff)
      ultimately show "x < groupid" by simp
    qed
    have two2: "\<forall>c. 0 < c \<and> c < groupid \<longrightarrow> 2 \<le> count_list ?g2 c"
      using keep two by simp
    have "committed nbobjs (?g2, groupid)"
      using r(2) gid below2 two2 by (simp add: committed_def)
    with res show ?thesis by simp
  next
    case False
    have res: "group_from nbobjs distances min_distance i groupids groupid
        = Some (groupids', groupid + 1)"
      using zero r(1) False by (simp add: group_from_def)
    from False sz_pos have sz2: "2 \<le> sz" by simp
    have below2: "\<forall>x \<in> set groupids'. x < groupid + 1"
      using le by fastforce
    have two2: "\<forall>c. 0 < c \<and> c < groupid + 1 \<longrightarrow> 2 \<le> count_list groupids' c"
    proof (intro allI impI)
      fix c assume c: "0 < c \<and> c < groupid + 1"
      show "2 \<le> count_list groupids' c"
      proof (cases "c = groupid")
        case True
        with sz sz2 show ?thesis by simp
      next
        case False
        with c other [of c] two show ?thesis by simp
      qed
    qed
    have "committed nbobjs (groupids', groupid + 1)"
      using r(2) below2 two2 by (simp add: committed_def)
    with res show ?thesis by simp
  qed
qed

lemma build_groups_committed:
  assumes "\<forall>i \<in> set seeds. i < nbobjs" "committed nbobjs (groupids, groupid)"
  shows "\<exists>st'. build_groups nbobjs distances min_distance seeds groupids groupid = Some st'
               \<and> committed nbobjs st'"
  using assms
proof (induction seeds arbitrary: groupids groupid)
  case Nil
  then show ?case by simp
next
  case (Cons i seeds)
  from Cons.prems have "i < nbobjs" by simp
  from group_from_committed [OF this Cons.prems(2), of distances min_distance]
  obtain st1 where st1: "group_from nbobjs distances min_distance i groupids groupid = Some st1"
    "committed nbobjs st1" by auto
  then have "committed nbobjs (fst st1, snd st1)" by simp
  from Cons.IH [OF _ this] Cons.prems(1)
  obtain st' where
    "build_groups nbobjs distances min_distance seeds (fst st1) (snd st1) = Some st'"
    "committed nbobjs st'" by auto
  with st1(1) show ?case by simp
qed

lemma committed_count:
  assumes "length groupids = nbobjs" "\<forall>x \<in> set groupids. x \<le> nbgroups"
    "\<forall>c. 1 \<le> c \<and> c \<le> nbgroups \<longrightarrow> 2 \<le> count_list groupids c"
  shows "2 * nbgroups \<le> nbobjs"
proof -
  have "2 * nbgroups = (\<Sum>c \<in> {1..nbgroups}. 2)" by simp
  also have "\<dots> \<le> (\<Sum>c \<in> {1..nbgroups}. count_list groupids c)"
    using assms(3) by (intro sum_mono) simp
  also have "\<dots> \<le> (\<Sum>c \<in> {0..nbgroups}. count_list groupids c)"
    by (intro sum_mono2) auto
  also have "\<dots> = length groupids"
    using assms(2) by (intro sum_count_set) auto
  finally show ?thesis using assms(1) by simp
qed

lemma clustering_returns:
  "\<exists>nbgroups groupids.
      hwloc_setup_group_from_min_distance nbobjs distances = Some (nbgroups, groupids)
    \<and> length groupids = nbobjs
    \<and> (\<forall>x \<in> set groupids. x \<le> nbgroups)
    \<and> (\<forall>c. 1 \<le> c \<and> c \<le> nbgroups \<longrightarrow> 2 \<le> count_list groupids c)"
proof (cases "find_min_distance nbobjs distances = FLT_MAX")
  case True
  then show ?thesis by (simp add: hwloc_setup_group_from_min_distance_def)
next
  case False
  have "committed nbobjs (replicate nbobjs 0, 1)"
    by (auto simp: committed_def)
  from build_groups_committed [OF _ this, of "[0..<nbobjs]" distances
      "find_min_distance nbobjs distances"]
  obtain groupids groupid where b:
    "build_groups nbobjs distances (find_min_distance nbobjs distances) [0..<nbobjs]
       (replicate nbobjs 0) 1 = Some (groupids, groupid)"
    "committed nbobjs (groupids, groupid)" by auto
  from b(2) have "length groupids = nbobjs" "\<forall>x \<in> set groupids. x \<le> groupid - 1"
    "\<forall>c. 1 \<le> c \<and> c \<le> groupid - 1 \<longrightarrow> 2 \<le> count_list groupids c"
    by (auto simp: committed_def)
  moreover have "hwloc_setup_group_from_min_distance nbobjs distances
      = Some (groupid - 1, groupids)"
    using False b(1) by (simp add: hwloc_setup_group_from_min_distance_def)
  ultimately show ?thesis by blast
qed

lemma clustering_halves:
  assumes "hwloc_setup_group_from_min_distance nbobjs distances = Some (nbgroups, groupids)"
  shows "2 * nbgroups \<le> nbobjs"
  using clustering_returns [of nbobjs distances] assms committed_count by auto

section \<open>GroupingEngine: Group objects, factorized distances and the recursion\<close>

text \<open>
  The cpuset and the size of group \<open>i\<close> (group id \<open>i + 1\<close>).  A Group object is what
  \<open>hwloc_alloc_setup_object(HWLOC_OBJ_GROUP, -1)\<close> returns, the parameter \<open>fresh\<close>, with
  its cpuset and \<open>attr->group.depth\<close> set.
\<close>

definition group_cpuset :: "nat \<Rightarrow> hwloc_obj list \<Rightarrow> nat list \<Rightarrow> nat \<Rightarrow> nat set" where
  "group_cpuset nbobjs objs groupids i =
     fold (\<lambda>j cpus. if groupids ! j = i + 1 then cpus \<union> cpuset (objs ! j) else cpus)
          [0..<nbobjs] {}"

definition group_size :: "nat \<Rightarrow> nat list \<Rightarrow> nat \<Rightarrow> nat" where
  "group_size nbobjs groupids i =
     fold (\<lambda>j sz. if groupids ! j = i + 1 then sz + 1 else sz) [0..<nbobjs] 0"

definition new_group :: "hwloc_obj \<Rightarrow> nat set \<Rightarrow> int \<Rightarrow> hwloc_obj" where
  "new_group fresh cpus depth' =
     Obj (obj_type fresh) (os_index fresh) (depth fresh) (logical_index fresh)
         cpus depth' (obj_distances fresh) (children fresh)"

text \<open>
  The factorization.  \<open>groupids[i] - 1\<close> is an unsigned difference; the sum is added at
  row \<open>groupids[i] - 1\<close> and column \<open>groupids[j] - 1\<close> of an array of \<open>nbgroups\<close> rows and
  columns, and an index outside it is a fault.
\<close>

definition group_index :: "nat \<Rightarrow> nat" where
  "group_index groupid = (if groupid = 0 then 4294967295 else groupid - 1)"

definition add_distance ::
  "nat \<Rightarrow> real list \<Rightarrow> nat list \<Rightarrow> nat \<Rightarrow> nat \<Rightarrow> nat \<Rightarrow> fault + real list
     \<Rightarrow> fault + real list" where
  "add_distance nbobjs distances groupids nbgroups i j acc =
     (case acc of
        Inl f \<Rightarrow> Inl f
      | Inr groupdistances \<Rightarrow>
          (let a = group_index (groupids ! i); b = group_index (groupids ! j)
           in if a < nbgroups \<and> b < nbgroups
              then Inr (groupdistances[a * nbgroups + b :=
                          groupdistances ! (a * nbgroups + b) + entry nbobjs distances i j])
              else Inl OutOfBounds))"

definition factorize ::
  "nat \<Rightarrow> real list \<Rightarrow> nat list \<Rightarrow> nat \<Rightarrow> nat list \<Rightarrow> fault + real list" where
  "factorize nbobjs distances groupids nbgroups groupsizes =
     (case fold (\<lambda>i. fold (add_distance nbobjs distances groupids nbgroups i) [0..<nbobjs])
                [0..<nbobjs] (Inr (replicate (nbgroups * nbgroups) 0)) of
        Inl f \<Rightarrow> Inl f
      | Inr totals \<Rightarrow>
          Inr (fold (\<lambda>i. fold (\<lambda>j groupdistances.
                                 groupdistances[i * nbgroups + j :=
                                   groupdistances ! (i * nbgroups + j)
                                     / real (groupsizes ! i * groupsizes ! j)])
                              [0..<nbgroups])
                    [0..<nbgroups] totals))"

text \<open>
  The recursive procedure.  \<open>hwloc_insert_object_by_cpuset\<close> belongs to the tree: the
  result is the list of the Group objects given to it, in order.
\<close>

function hwloc__setup_groups_from_distances ::
  "hwloc_obj \<Rightarrow> nat \<Rightarrow> hwloc_obj list \<Rightarrow> real list \<Rightarrow> int \<Rightarrow> fault + hwloc_obj list" where
  "hwloc__setup_groups_from_distances fresh nbobjs objs distances depth' =
     (if nbobjs \<le> 2 then Inr []
      else case hwloc_setup_group_from_min_distance nbobjs distances of
        None \<Rightarrow> Inl Diverges
      | Some (nbgroups, groupids) \<Rightarrow>
          if nbgroups = 0 then Inr []
          else if nbgroups = 1 then Inr []
          else
            (let groupobjs = map (\<lambda>i. new_group fresh (group_cpuset nbobjs objs groupids i) depth')
                                 [0..<nbgroups];
                 groupsizes = map (group_size nbobjs groupids) [0..<nbgroups]
             in case factorize nbobjs distances groupids nbgroups groupsizes of
                  Inl f \<Rightarrow> Inl f
                | Inr groupdistances \<Rightarrow>
                    (case hwloc__setup_groups_from_distances fresh nbgroups groupobjs
                            groupdistances (depth' + 1) of
                       Inl f \<Rightarrow> Inl f
                     | Inr inserted \<Rightarrow> Inr (groupobjs @ inserted))))"
  by pat_completeness auto
termination
proof (relation "measure (\<lambda>(fresh, nbobjs, objs, distances, depth'). nbobjs)", goal_cases)
  case 1
  show ?case by simp
next
  case (2 fresh nbobjs objs distances depth' x2 nbgroups groupids)
  then have "hwloc_setup_group_from_min_distance nbobjs distances = Some (nbgroups, groupids)"
    by simp
  from clustering_halves [OF this] 2 show ?case by simp
qed

declare hwloc__setup_groups_from_distances.simps [simp del]

text \<open>
  The check of the matrix (no pair \<open>i < j\<close> makes the loops return) and the entry point;
  \<open>ignore\<close> is whether \<open>HWLOC_IGNORE_DISTANCES\<close> is set in the environment.
\<close>

definition matrix_ok :: "nat \<Rightarrow> real list \<Rightarrow> bool" where
  "matrix_ok nbobjs distances =
     list_all (\<lambda>i. list_all (\<lambda>j. \<not> entry nbobjs distances i j \<noteq> entry nbobjs distances j i
                                \<and> \<not> entry nbobjs distances i j \<le> entry nbobjs distances i i)
                             [i + 1..<nbobjs])
              [0..<nbobjs]"

definition hwloc_setup_groups_from_distances ::
  "bool \<Rightarrow> hwloc_obj \<Rightarrow> nat \<Rightarrow> hwloc_obj list \<Rightarrow> real list \<Rightarrow> fault + hwloc_obj list" where
  "hwloc_setup_groups_from_distances ignore fresh nbobjs objs distances =
     (if ignore then Inr []
      else if \<not> matrix_ok nbobjs distances then Inr []
      else hwloc__setup_groups_from_distances fresh nbobjs objs distances 0)"

section \<open>Properties of the distance store\<close>

lemma same_index_twice_iff:
  "same_index_twice nbobjs indexes \<longleftrightarrow>
     (\<exists>i j. i < j \<and> j < nbobjs \<and> indexes ! i = indexes ! j)"
proof
  assume "same_index_twice nbobjs indexes"
  then obtain i j where "i < nbobjs" "Suc i \<le> j" "j < nbobjs" "indexes ! i = indexes ! j"
    unfolding same_index_twice_def list_ex_iff by auto
  then have "i < j \<and> j < nbobjs \<and> indexes ! i = indexes ! j" by simp
  then show "\<exists>i j. i < j \<and> j < nbobjs \<and> indexes ! i = indexes ! j" by blast
next
  assume "\<exists>i j. i < j \<and> j < nbobjs \<and> indexes ! i = indexes ! j"
  then obtain i j where ij: "i < j" "j < nbobjs" "indexes ! i = indexes ! j" by blast
  then have "i \<in> set [0..<nbobjs]" "j \<in> set [i + 1..<nbobjs]" by simp_all
  with ij(3) show "same_index_twice nbobjs indexes"
    unfolding same_index_twice_def list_ex_iff by blast
qed

lemma same_index_twice_distinct:
  assumes "length indexes = nbobjs"
  shows "same_index_twice nbobjs indexes \<longleftrightarrow> \<not> distinct indexes"
proof
  assume "same_index_twice nbobjs indexes"
  then obtain i j where "i < j" "j < nbobjs" "indexes ! i = indexes ! j"
    unfolding same_index_twice_iff by blast
  with assms have "i < length indexes" "j < length indexes" "i \<noteq> j" by simp_all
  with \<open>indexes ! i = indexes ! j\<close> show "\<not> distinct indexes"
    unfolding distinct_conv_nth by blast
next
  assume "\<not> distinct indexes"
  then obtain i j where ij: "i < length indexes" "j < length indexes" "i \<noteq> j"
      "indexes ! i = indexes ! j"
    by (auto simp: distinct_conv_nth)
  show "same_index_twice nbobjs indexes"
  proof (cases "i < j")
    case True
    with ij assms show ?thesis unfolding same_index_twice_iff by blast
  next
    case False
    with ij have "j < i" by simp
    with ij assms show ?thesis unfolding same_index_twice_iff by metis
  qed
qed

lemma set_distance_matrix_copy:
  assumes "length indexes = nbobjs" "length distances = nbobjs * nbobjs"
  shows "hwloc_topology_set_distance_matrix topology type nbobjs indexes distances
           = hwloc_topology__set_distance_matrix topology type nbobjs indexes distances"
  using assms by (simp add: hwloc_topology_set_distance_matrix_def)

text \<open>
  C6.  When the index array (of \<open>nbobjs\<close> entries) holds the same index twice, the call
  fails with \<open>EINVAL\<close> and the topology, so the stored count, indexes and distances of
  the type, is unchanged; when all indexes are distinct the call succeeds and the count,
  the indexes and the distances of the type are replaced together.
\<close>

theorem set_distance_matrix_checks_duplicates:
  assumes "length indexes = nbobjs"
  shows "(\<not> distinct indexes \<longrightarrow>
            hwloc_topology__set_distance_matrix topology type nbobjs indexes distances
              = (Inl EINVAL, topology))
       \<and> (distinct indexes \<longrightarrow>
            (\<exists>topology'.
               hwloc_topology__set_distance_matrix topology type nbobjs indexes distances
                 = (Inr (), topology')
             \<and> osd_nbobjs (os_distances topology' type) = nbobjs
             \<and> osd_indexes (os_distances topology' type) = Some indexes
             \<and> osd_distances (os_distances topology' type) = Some distances
             \<and> osd_objs (os_distances topology' type) = osd_objs (os_distances topology type)
             \<and> (\<forall>t. t \<noteq> type \<longrightarrow> os_distances topology' t = os_distances topology t)
             \<and> root_obj topology' = root_obj topology))"
  using same_index_twice_distinct [OF assms]
  by (simp add: hwloc_topology__set_distance_matrix_def)

theorem set_distance_matrix_checks_duplicates_witness:
  "length [3, 3 :: nat] = 2 \<and> \<not> distinct [3, 3 :: nat]
   \<and> hwloc_topology__set_distance_matrix example_topology 2 2 [3, 3] [1, 2, 2, 1]
       = (Inl EINVAL, example_topology)
   \<and> length [4, 7 :: nat] = 2 \<and> distinct [4, 7 :: nat]
   \<and> osd_indexes (os_distances
        (snd (hwloc_topology__set_distance_matrix example_topology 2 2 [4, 7] [1, 3, 3, 1])) 2)
       = Some [4, 7]"
  using set_distance_matrix_checks_duplicates [of "[3, 3]" 2 example_topology 2 "[1, 2, 2, 1]"]
    set_distance_matrix_checks_duplicates [of "[4, 7]" 2 example_topology 2 "[1, 3, 3, 1]"]
  by auto

section \<open>Properties of the index resolver\<close>

lemma find_sound:
  "hwloc_find_obj_by_type_and_os_index r t k = Some obj \<Longrightarrow>
     obj \<in> set (tree_objs r) \<and> obj_type obj = t \<and> os_index obj = k"
  "find_in_children cs t k = Some obj \<Longrightarrow>
     (\<exists>c \<in> set cs. obj \<in> set (tree_objs c)) \<and> obj_type obj = t \<and> os_index obj = k"
proof (induction r t k and cs t k rule: hwloc_find_obj_by_type_and_os_index_find_in_children.induct)
  case (1 r t k)
  then show ?case
    by (cases r) (auto simp: hwloc_find_obj_by_type_and_os_index.simps split: if_splits)
next
  case (2 t k)
  then show ?case by simp
next
  case (3 c cs t k)
  then show ?case by (auto split: option.splits)
qed

lemma find_complete:
  "hwloc_find_obj_by_type_and_os_index r t k = None \<Longrightarrow>
     \<forall>obj \<in> set (tree_objs r). \<not> (obj_type obj = t \<and> os_index obj = k)"
  "find_in_children cs t k = None \<Longrightarrow>
     \<forall>c \<in> set cs. \<forall>obj \<in> set (tree_objs c). \<not> (obj_type obj = t \<and> os_index obj = k)"
proof (induction r t k and cs t k rule: hwloc_find_obj_by_type_and_os_index_find_in_children.induct)
  case (1 r t k)
  then show ?case
    by (cases r) (auto simp: hwloc_find_obj_by_type_and_os_index.simps split: if_splits)
next
  case (2 t k)
  then show ?case by simp
next
  case (3 c cs t k)
  then show ?case by (auto split: option.splits)
qed

lemma fold_update_nth:
  "distinct is \<Longrightarrow> \<forall>i \<in> set is. i < length objs \<Longrightarrow> j < length objs \<Longrightarrow>
     fold (\<lambda>i objs. objs[i := f i]) is objs ! j = (if j \<in> set is then f j else objs ! j)"
  by (induction "is" arbitrary: objs) (auto simp: nth_list_update)

lemma fold_update_length:
  "length (fold (\<lambda>i objs. objs[i := f i]) is objs) = length objs"
  by (induction "is" arbitrary: objs) auto

lemma resolve_indexes_eq:
  "resolve_indexes r t indexes is objs =
     (if \<forall>i \<in> set is. hwloc_find_obj_by_type_and_os_index r t (indexes ! i) \<noteq> None
      then Some (fold (\<lambda>i objs. objs[i := hwloc_find_obj_by_type_and_os_index r t (indexes ! i)])
                   is objs)
      else None)"
  by (induction "is" arbitrary: objs) (auto split: option.splits)

lemma resolve_all:
  assumes "length indexes = nbobjs"
  shows "resolve_indexes r t indexes [0..<nbobjs] (replicate nbobjs None) =
     (if \<forall>k \<in> set indexes. hwloc_find_obj_by_type_and_os_index r t k \<noteq> None
      then Some (map (hwloc_find_obj_by_type_and_os_index r t) indexes)
      else None)"
proof -
  have "fold (\<lambda>i objs. objs[i := hwloc_find_obj_by_type_and_os_index r t (indexes ! i)])
          [0..<nbobjs] (replicate nbobjs None)
        = map (hwloc_find_obj_by_type_and_os_index r t) indexes"
    using assms by (intro nth_equalityI) (simp_all add: fold_update_length fold_update_nth)
  moreover have "(\<forall>i \<in> set [0..<nbobjs]. hwloc_find_obj_by_type_and_os_index r t (indexes ! i) \<noteq> None)
      \<longleftrightarrow> (\<forall>k \<in> set indexes. hwloc_find_obj_by_type_and_os_index r t k \<noteq> None)"
    using assms by (auto simp: all_set_conv_all_nth)
  ultimately show ?thesis
    unfolding resolve_indexes_eq by simp
qed

lemma convert_type_root: "root_obj (convert_type t topology) = root_obj topology"
  by (simp add: convert_type_def Let_def split: option.splits)

lemma convert_type_other:
  "t' \<noteq> t \<Longrightarrow> os_distances (convert_type t topology) t' = os_distances topology t'"
  by (simp add: convert_type_def Let_def split: option.splits)

lemma convert_type_slot:
  "os_distances (convert_type t topology) t =
     (case osd_indexes (os_distances topology t) of
        None \<Rightarrow> os_distances topology t
      | Some indexes \<Rightarrow> (os_distances topology t)
          \<lparr>osd_objs := resolve_indexes (root_obj topology) t indexes
                         [0..<osd_nbobjs (os_distances topology t)]
                         (replicate (osd_nbobjs (os_distances topology t)) None)\<rparr>)"
  by (simp add: convert_type_def Let_def split: option.splits)

lemma fold_convert_type_root: "root_obj (fold convert_type ts topology) = root_obj topology"
  by (induction ts arbitrary: topology) (simp_all add: convert_type_root)

lemma fold_convert_type_notin:
  "t \<notin> set ts \<Longrightarrow> os_distances (fold convert_type ts topology) t = os_distances topology t"
  by (induction ts arbitrary: topology) (simp_all add: convert_type_other)

lemma fold_convert_type_slot:
  "distinct ts \<Longrightarrow> t \<in> set ts \<Longrightarrow>
     os_distances (fold convert_type ts topology) t = os_distances (convert_type t topology) t"
proof (induction ts arbitrary: topology)
  case Nil
  then show ?case by simp
next
  case (Cons a ts)
  show ?case
  proof (cases "a = t")
    case True
    with Cons.prems show ?thesis by (simp add: fold_convert_type_notin)
  next
    case False
    with Cons have "os_distances (fold convert_type ts (convert_type a topology)) t
        = os_distances (convert_type t (convert_type a topology)) t" by simp
    also have "\<dots> = os_distances (convert_type t topology) t"
      using False not_sym [OF False]
      by (simp add: convert_type_slot convert_type_other convert_type_root split: option.splits)
    finally show ?thesis by simp
  qed
qed

lemma convert_slot:
  "type < type_max \<Longrightarrow>
     os_distances (hwloc_convert_distances_indexes_into_objects type_max topology) type
       = os_distances (convert_type type topology) type"
  unfolding hwloc_convert_distances_indexes_into_objects_def
  by (rule fold_convert_type_slot) simp_all

text \<open>
  C8.  For a type with a stored index list (of \<open>nbobjs\<close> entries): the stored indexes,
  distances and count are unchanged by the resolver; if every stored index is the OS index
  of some object of that type in the tree, the resolved sequence is present, as long as the
  index list and in its order, each entry an object of the tree with that type and that
  index; if some stored index is the OS index of no object of that type, the resolved
  sequence is absent.
\<close>

theorem resolver_all_or_nothing:
  assumes "type < type_max"
    and "osd_indexes (os_distances topology type) = Some indexes"
    and "length indexes = osd_nbobjs (os_distances topology type)"
  shows "osd_indexes (os_distances (hwloc_convert_distances_indexes_into_objects type_max topology) type)
           = Some indexes
       \<and> osd_distances (os_distances (hwloc_convert_distances_indexes_into_objects type_max topology) type)
           = osd_distances (os_distances topology type)
       \<and> osd_nbobjs (os_distances (hwloc_convert_distances_indexes_into_objects type_max topology) type)
           = osd_nbobjs (os_distances topology type)
       \<and> ((\<forall>k \<in> set indexes. \<exists>obj \<in> set (tree_objs (root_obj topology)).
               obj_type obj = type \<and> os_index obj = k) \<longrightarrow>
            (\<exists>objs. osd_objs (os_distances
                        (hwloc_convert_distances_indexes_into_objects type_max topology) type)
                      = Some (map Some objs)
                  \<and> length objs = length indexes
                  \<and> (\<forall>i < length indexes.
                        objs ! i \<in> set (tree_objs (root_obj topology))
                      \<and> obj_type (objs ! i) = type \<and> os_index (objs ! i) = indexes ! i)))
       \<and> ((\<exists>k \<in> set indexes. \<forall>obj \<in> set (tree_objs (root_obj topology)).
               \<not> (obj_type obj = type \<and> os_index obj = k)) \<longrightarrow>
            osd_objs (os_distances
                        (hwloc_convert_distances_indexes_into_objects type_max topology) type)
              = None)"
proof -
  let ?find = "hwloc_find_obj_by_type_and_os_index (root_obj topology) type"
  let ?slot = "os_distances (hwloc_convert_distances_indexes_into_objects type_max topology) type"
  have slot: "?slot = (os_distances topology type)
      \<lparr>osd_objs := (if \<forall>k \<in> set indexes. ?find k \<noteq> None then Some (map ?find indexes) else None)\<rparr>"
    using assms by (simp add: convert_slot convert_type_slot resolve_all)
  have found: "(\<forall>k \<in> set indexes. ?find k \<noteq> None)"
    if "\<forall>k \<in> set indexes. \<exists>obj \<in> set (tree_objs (root_obj topology)).
               obj_type obj = type \<and> os_index obj = k"
    using that find_complete(1) by blast
  have missing: "\<not> (\<forall>k \<in> set indexes. ?find k \<noteq> None)"
    if "\<exists>k \<in> set indexes. \<forall>obj \<in> set (tree_objs (root_obj topology)).
               \<not> (obj_type obj = type \<and> os_index obj = k)"
    using that find_sound(1) by fastforce
  have all: "\<exists>objs. Some (map ?find indexes) = Some (map Some objs)
                  \<and> length objs = length indexes
                  \<and> (\<forall>i < length indexes.
                        objs ! i \<in> set (tree_objs (root_obj topology))
                      \<and> obj_type (objs ! i) = type \<and> os_index (objs ! i) = indexes ! i)"
    if "\<forall>k \<in> set indexes. ?find k \<noteq> None"
  proof (intro exI conjI)
    show "Some (map ?find indexes) = Some (map Some (map (\<lambda>k. the (?find k)) indexes))"
      using that by simp
    show "length (map (\<lambda>k. the (?find k)) indexes) = length indexes" by simp
    show "\<forall>i < length indexes.
            map (\<lambda>k. the (?find k)) indexes ! i \<in> set (tree_objs (root_obj topology))
          \<and> obj_type (map (\<lambda>k. the (?find k)) indexes ! i) = type
          \<and> os_index (map (\<lambda>k. the (?find k)) indexes ! i) = indexes ! i"
    proof (intro allI impI)
      fix i assume i: "i < length indexes"
      with that obtain obj where "?find (indexes ! i) = Some obj" by fastforce
      with i find_sound(1) [of "root_obj topology" type "indexes ! i" obj]
      show "map (\<lambda>k. the (?find k)) indexes ! i \<in> set (tree_objs (root_obj topology))
          \<and> obj_type (map (\<lambda>k. the (?find k)) indexes ! i) = type
          \<and> os_index (map (\<lambda>k. the (?find k)) indexes ! i) = indexes ! i"
        by simp
    qed
  qed
  have c1: "osd_indexes ?slot = Some indexes"
    and c2: "osd_distances ?slot = osd_distances (os_distances topology type)"
    and c3: "osd_nbobjs ?slot = osd_nbobjs (os_distances topology type)"
    using assms by (simp_all add: slot)
  have c4: "(\<forall>k \<in> set indexes. \<exists>obj \<in> set (tree_objs (root_obj topology)).
               obj_type obj = type \<and> os_index obj = k) \<longrightarrow>
            (\<exists>objs. osd_objs ?slot = Some (map Some objs)
                  \<and> length objs = length indexes
                  \<and> (\<forall>i < length indexes.
                        objs ! i \<in> set (tree_objs (root_obj topology))
                      \<and> obj_type (objs ! i) = type \<and> os_index (objs ! i) = indexes ! i))"
  proof
    assume "\<forall>k \<in> set indexes. \<exists>obj \<in> set (tree_objs (root_obj topology)).
               obj_type obj = type \<and> os_index obj = k"
    then have T: "\<forall>k \<in> set indexes. ?find k \<noteq> None" by (rule found)
    then have "osd_objs ?slot = Some (map ?find indexes)" by (simp add: slot)
    with all [OF T] show "\<exists>objs. osd_objs ?slot = Some (map Some objs)
                  \<and> length objs = length indexes
                  \<and> (\<forall>i < length indexes.
                        objs ! i \<in> set (tree_objs (root_obj topology))
                      \<and> obj_type (objs ! i) = type \<and> os_index (objs ! i) = indexes ! i)"
      by simp
  qed
  have c5: "(\<exists>k \<in> set indexes. \<forall>obj \<in> set (tree_objs (root_obj topology)).
               \<not> (obj_type obj = type \<and> os_index obj = k)) \<longrightarrow> osd_objs ?slot = None"
  proof
    assume "\<exists>k \<in> set indexes. \<forall>obj \<in> set (tree_objs (root_obj topology)).
               \<not> (obj_type obj = type \<and> os_index obj = k)"
    then have "\<not> (\<forall>k \<in> set indexes. ?find k \<noteq> None)" by (rule missing)
    then show "osd_objs ?slot = None" by (simp add: slot)
  qed
  from c1 c2 c3 c4 c5 show ?thesis by (intro conjI)
qed


theorem resolver_all_or_nothing_witness:
  "(2::nat) < 9 \<and> osd_indexes (os_distances example_topology 2) = Some [1, 0]
   \<and> length [1, 0 :: nat] = osd_nbobjs (os_distances example_topology 2)
   \<and> osd_indexes (os_distances
        (hwloc_convert_distances_indexes_into_objects 9 example_topology) 2) = Some [1, 0]
   \<and> osd_objs (os_distances
        (hwloc_convert_distances_indexes_into_objects 9 example_topology) 2)
       = Some [Some (Obj 2 1 1 1 {1} 0 [] []), Some (Obj 2 0 1 0 {0} 0 [] [])]
   \<and> (3::nat) < 9 \<and> osd_indexes (os_distances example_topology 3) = Some [5]
   \<and> length [5 :: nat] = osd_nbobjs (os_distances example_topology 3)
   \<and> osd_objs (os_distances
        (hwloc_convert_distances_indexes_into_objects 9 example_topology) 3) = None"
  using resolver_all_or_nothing [of 2 9 example_topology "[1, 0]"]
    resolver_all_or_nothing [of 3 9 example_topology "[5]"]
  by (simp add: example_topology_def convert_slot convert_type_slot
        hwloc_find_obj_by_type_and_os_index.simps upt_rec numeral_2_eq_2)

section \<open>Properties of the factorization\<close>

lemma group_index_in_range:
  "0 < groupid \<Longrightarrow> groupid \<le> nbgroups \<Longrightarrow> group_index groupid < nbgroups"
  by (simp add: group_index_def)

lemma add_distance_in_range:
  assumes "\<not> isl acc" "0 < groupids ! i" "groupids ! i \<le> nbgroups"
    "0 < groupids ! j" "groupids ! j \<le> nbgroups"
  shows "\<not> isl (add_distance nbobjs distances groupids nbgroups i j acc)"
  using assms group_index_in_range [of "groupids ! i" nbgroups]
    group_index_in_range [of "groupids ! j" nbgroups]
  by (cases acc) (simp_all add: add_distance_def Let_def)

lemma fold_add_distance_in_range:
  assumes "0 < groupids ! i" "groupids ! i \<le> nbgroups"
    "\<forall>j \<in> set js. 0 < groupids ! j \<and> groupids ! j \<le> nbgroups" "\<not> isl acc"
  shows "\<not> isl (fold (add_distance nbobjs distances groupids nbgroups i) js acc)"
  using assms(3,4)
  by (induction js arbitrary: acc) (simp_all add: add_distance_in_range assms(1,2))

lemma fold_rows_in_range:
  assumes "\<forall>i \<in> set is. 0 < groupids ! i \<and> groupids ! i \<le> nbgroups"
    "\<forall>j \<in> set js. 0 < groupids ! j \<and> groupids ! j \<le> nbgroups" "\<not> isl acc"
  shows "\<not> isl (fold (\<lambda>i. fold (add_distance nbobjs distances groupids nbgroups i) js) is acc)"
  using assms(1,3)
  by (induction "is" arbitrary: acc) (simp_all add: fold_add_distance_in_range assms(2))

lemma factorize_in_range:
  assumes "\<forall>i < nbobjs. 0 < groupids ! i \<and> groupids ! i \<le> nbgroups"
  shows "\<exists>groupdistances.
           factorize nbobjs distances groupids nbgroups groupsizes = Inr groupdistances"
proof -
  have "\<not> isl (fold (\<lambda>i. fold (add_distance nbobjs distances groupids nbgroups i) [0..<nbobjs])
                 [0..<nbobjs] (Inr (replicate (nbgroups * nbgroups) 0)))"
    using assms by (intro fold_rows_in_range) simp_all
  then show ?thesis
    unfolding factorize_def by (auto split: sum.splits)
qed

text \<open>An object left with group id 0 sends the factorization out of its array.\<close>

definition only_out_of_bounds :: "fault + real list \<Rightarrow> bool" where
  "only_out_of_bounds acc \<longleftrightarrow> (case acc of Inl f \<Rightarrow> f = OutOfBounds | Inr _ \<Rightarrow> True)"

lemma add_distance_only:
  "only_out_of_bounds acc \<Longrightarrow>
     only_out_of_bounds (add_distance nbobjs distances groupids nbgroups i j acc)"
  by (cases acc) (simp_all add: add_distance_def only_out_of_bounds_def Let_def)

lemma fold_add_distance_only:
  "only_out_of_bounds acc \<Longrightarrow>
     only_out_of_bounds (fold (add_distance nbobjs distances groupids nbgroups i) js acc)"
  by (induction js arbitrary: acc) (simp_all add: add_distance_only)

lemma fold_rows_only:
  "only_out_of_bounds acc \<Longrightarrow>
     only_out_of_bounds
       (fold (\<lambda>i. fold (add_distance nbobjs distances groupids nbgroups i) js) is acc)"
  by (induction "is" arbitrary: acc) (simp_all add: fold_add_distance_only)

lemma fold_add_distance_fault:
  "fold (add_distance nbobjs distances groupids nbgroups i) js (Inl f) = Inl f"
  by (induction js) (simp_all add: add_distance_def)

lemma fold_rows_fault:
  "fold (\<lambda>i. fold (add_distance nbobjs distances groupids nbgroups i) js) is (Inl f) = Inl f"
  by (induction "is") (simp_all add: fold_add_distance_fault)

lemma add_distance_ungrouped:
  assumes "groupids ! i = 0" "nbgroups \<le> 4294967295" "only_out_of_bounds acc"
  shows "add_distance nbobjs distances groupids nbgroups i j acc = Inl OutOfBounds"
  using assms
  by (cases acc) (simp_all add: add_distance_def only_out_of_bounds_def group_index_def Let_def)

lemma factorize_ungrouped:
  assumes "i < nbobjs" "groupids ! i = 0" "nbgroups \<le> 4294967295"
  shows "factorize nbobjs distances groupids nbgroups groupsizes = Inl OutOfBounds"
proof -
  let ?row = "\<lambda>i. fold (add_distance nbobjs distances groupids nbgroups i) [0..<nbobjs]"
  let ?start = "Inr (replicate (nbgroups * nbgroups) 0) :: fault + real list"
  let ?before = "fold ?row [0..<i] ?start"
  have rows: "[0..<nbobjs] = [0..<i] @ i # [Suc i..<nbobjs]"
  proof -
    from assms(1) have "[0..<i + (nbobjs - i)] = [0..<i] @ [i..<i + (nbobjs - i)]"
      by (intro upt_add_eq_append) simp
    with assms(1) show ?thesis by (simp add: upt_conv_Cons)
  qed
  have cols: "[0..<nbobjs] = 0 # [Suc 0..<nbobjs]"
    using assms(1) by (simp add: upt_conv_Cons)
  have "only_out_of_bounds ?before"
    by (rule fold_rows_only) (simp add: only_out_of_bounds_def)
  then have "add_distance nbobjs distances groupids nbgroups i 0 ?before = Inl OutOfBounds"
    by (rule add_distance_ungrouped [OF assms(2,3)])
  then have "?row i ?before = Inl OutOfBounds"
    by (subst cols) (simp add: fold_add_distance_fault)
  then have "fold ?row [0..<nbobjs] ?start = Inl OutOfBounds"
    by (subst rows) (simp add: fold_rows_fault)
  then show ?thesis
    unfolding factorize_def by simp
qed

section \<open>Properties of the recursive grouping\<close>

lemma setup_groups_small:
  "nbobjs \<le> 2 \<Longrightarrow> hwloc__setup_groups_from_distances fresh nbobjs objs distances depth' = Inr []"
  by (subst hwloc__setup_groups_from_distances.simps) simp

lemma setup_groups_few:
  assumes "hwloc_setup_group_from_min_distance nbobjs distances = Some (nbgroups, groupids)"
    "nbgroups \<le> 1"
  shows "hwloc__setup_groups_from_distances fresh nbobjs objs distances depth' = Inr []"
  using assms by (subst hwloc__setup_groups_from_distances.simps) auto

lemma setup_groups_two:
  assumes "2 < nbobjs"
    and "hwloc_setup_group_from_min_distance nbobjs distances = Some (2, groupids)"
    and "\<forall>i < nbobjs. 0 < groupids ! i \<and> groupids ! i \<le> 2"
  shows "hwloc__setup_groups_from_distances fresh nbobjs objs distances depth'
           = Inr [new_group fresh (group_cpuset nbobjs objs groupids 0) depth',
                  new_group fresh (group_cpuset nbobjs objs groupids 1) depth']"
proof -
  obtain groupdistances where
    "factorize nbobjs distances groupids 2 (map (group_size nbobjs groupids) [0..<2])
       = Inr groupdistances"
    using factorize_in_range [OF assms(3)] by blast
  moreover have "[0..<2] = [0, 1]" by (simp add: upt_rec)
  ultimately show ?thesis
    using assms(1,2)
    by (subst hwloc__setup_groups_from_distances.simps) (simp add: setup_groups_small)
qed

lemma setup_groups_ungrouped:
  assumes "2 < nbobjs"
    and "hwloc_setup_group_from_min_distance nbobjs distances = Some (nbgroups, groupids)"
    and "2 \<le> nbgroups" "nbgroups \<le> 4294967295"
    and "i < nbobjs" "groupids ! i = 0"
  shows "hwloc__setup_groups_from_distances fresh nbobjs objs distances depth'
           = Inl OutOfBounds"
  using assms(1-3) factorize_ungrouped [OF assms(5,6,4)]
  by (subst hwloc__setup_groups_from_distances.simps) (simp add: Let_def)

lemma factorize_faults:
  "factorize nbobjs distances groupids nbgroups groupsizes = Inl f \<Longrightarrow> f = OutOfBounds"
proof -
  have "only_out_of_bounds
          (fold (\<lambda>i. fold (add_distance nbobjs distances groupids nbgroups i) [0..<nbobjs])
                [0..<nbobjs] (Inr (replicate (nbgroups * nbgroups) 0)))"
    by (rule fold_rows_only) (simp add: only_out_of_bounds_def)
  then show "factorize nbobjs distances groupids nbgroups groupsizes = Inl f \<Longrightarrow> f = OutOfBounds"
    unfolding factorize_def only_out_of_bounds_def by (auto split: sum.splits)
qed

lemma setup_groups_returns:
  "hwloc__setup_groups_from_distances fresh nbobjs objs distances depth' \<noteq> Inl Diverges"
proof (induction fresh nbobjs objs distances depth'
    rule: hwloc__setup_groups_from_distances.induct)
  case (1 fresh nbobjs objs distances depth')
  obtain nbgroups groupids where
    c: "hwloc_setup_group_from_min_distance nbobjs distances = Some (nbgroups, groupids)"
    using clustering_returns [of nbobjs distances] by blast
  show ?case
  proof (cases "nbobjs \<le> 2 \<or> nbgroups \<le> 1")
    case True
    then show ?thesis
      using setup_groups_small [of nbobjs] setup_groups_few [OF c] by auto
  next
    case False
    let ?groupobjs = "map (\<lambda>i. new_group fresh (group_cpuset nbobjs objs groupids i) depth')
                          [0..<nbgroups]"
    let ?groupsizes = "map (group_size nbobjs groupids) [0..<nbgroups]"
    show ?thesis
    proof (cases "factorize nbobjs distances groupids nbgroups ?groupsizes")
      case (Inl f)
      with factorize_faults [OF Inl] False c show ?thesis
        by (subst hwloc__setup_groups_from_distances.simps) (simp add: Let_def)
    next
      case (Inr groupdistances)
      from False c Inr
      have "hwloc__setup_groups_from_distances fresh nbgroups ?groupobjs groupdistances
              (depth' + 1) \<noteq> Inl Diverges"
        by (intro "1.IH" [of "(nbgroups, groupids)" nbgroups groupids ?groupobjs ?groupsizes])
           simp_all
      with False c Inr show ?thesis
        by (subst hwloc__setup_groups_from_distances.simps)
           (auto simp: Let_def split: sum.splits)
    qed
  qed
qed

lemma two_pairs_clustering:
  "hwloc_setup_group_from_min_distance 4
     [0, 10, 20, 20,  10, 0, 20, 20,  20, 20, 0, 10,  20, 20, 10, 0] = Some (2, [1, 1, 2, 2])"
  by code_simp

lemma two_pairs_ok:
  "matrix_ok 4 [0, 10, 20, 20,  10, 0, 20, 20,  20, 20, 0, 10,  20, 20, 10, 0]"
  by code_simp

text \<open>
  C3.  On the 4-object matrix with diagonal 0, entries (0,1) and (2,3) equal to 10 and every
  other entry 20, the clustering commits exactly 2 groups, with group ids 1, 1, 2, 2, each of
  size 2; the grouping creates exactly two Group objects: each is the object that
  \<open>hwloc_alloc_setup_object\<close> returned with its cpuset and its group depth set, the cpuset
  of the first being the union of the cpusets of objects 0 and 1, the cpuset of the second
  the union of the cpusets of objects 2 and 3, and the group depth of both being 0.
\<close>

theorem two_pairs_two_groups:
  "hwloc_setup_group_from_min_distance 4
     [0, 10, 20, 20,  10, 0, 20, 20,  20, 20, 0, 10,  20, 20, 10, 0] = Some (2, [1, 1, 2, 2])
   \<and> group_size 4 [1, 1, 2, 2] 0 = 2 \<and> group_size 4 [1, 1, 2, 2] 1 = 2
   \<and> hwloc_setup_groups_from_distances False fresh 4 [obj0, obj1, obj2, obj3]
        [0, 10, 20, 20,  10, 0, 20, 20,  20, 20, 0, 10,  20, 20, 10, 0]
      = Inr [Obj (obj_type fresh) (os_index fresh) (depth fresh) (logical_index fresh)
               (cpuset obj0 \<union> cpuset obj1) 0 (obj_distances fresh) (children fresh),
             Obj (obj_type fresh) (os_index fresh) (depth fresh) (logical_index fresh)
               (cpuset obj2 \<union> cpuset obj3) 0 (obj_distances fresh) (children fresh)]
   \<and> map cpuset (projr (hwloc_setup_groups_from_distances False fresh 4
                            [obj0, obj1, obj2, obj3]
                            [0, 10, 20, 20,  10, 0, 20, 20,  20, 20, 0, 10,  20, 20, 10, 0]))
      = [cpuset obj0 \<union> cpuset obj1, cpuset obj2 \<union> cpuset obj3]
   \<and> map group_depth (projr (hwloc_setup_groups_from_distances False fresh 4
                                 [obj0, obj1, obj2, obj3]
                                 [0, 10, 20, 20,  10, 0, 20, 20,  20, 20, 0, 10,  20, 20, 10, 0]))
      = [0, 0]"
proof -
  let ?m = "[0, 10, 20, 20,  10, 0, 20, 20,  20, 20, 0, 10,  20, 20, 10, 0] :: real list"
  let ?objs = "[obj0, obj1, obj2, obj3]"
  have range: "[0..<4] = [0, 1, 2, 3]" by (simp add: upt_rec)
  have ids: "\<forall>i < 4. 0 < [1, 1, 2, 2 :: nat] ! i \<and> [1, 1, 2, 2 :: nat] ! i \<le> 2"
    by (simp add: eval_nat_numeral All_less_Suc)
  have sizes: "group_size 4 [1, 1, 2, 2] 0 = 2" "group_size 4 [1, 1, 2, 2] 1 = 2"
    by (simp_all add: group_size_def range)
  have sets: "group_cpuset 4 ?objs [1, 1, 2, 2] 0 = cpuset obj0 \<union> cpuset obj1"
    "group_cpuset 4 ?objs [1, 1, 2, 2] 1 = cpuset obj2 \<union> cpuset obj3"
    by (simp_all add: group_cpuset_def range)
  have "hwloc__setup_groups_from_distances fresh 4 ?objs ?m 0
      = Inr [new_group fresh (group_cpuset 4 ?objs [1, 1, 2, 2] 0) 0,
             new_group fresh (group_cpuset 4 ?objs [1, 1, 2, 2] 1) 0]"
    by (rule setup_groups_two [OF _ two_pairs_clustering ids]) simp
  from this [unfolded sets] two_pairs_ok
  have "hwloc_setup_groups_from_distances False fresh 4 ?objs ?m
      = Inr [new_group fresh (cpuset obj0 \<union> cpuset obj1) 0,
             new_group fresh (cpuset obj2 \<union> cpuset obj3) 0]"
    by (simp add: hwloc_setup_groups_from_distances_def)
  with two_pairs_clustering sizes show ?thesis by (simp add: new_group_def)
qed


lemma matrix_ok_iff:
  "matrix_ok nbobjs distances \<longleftrightarrow>
     (\<forall>i j. i < j \<and> j < nbobjs \<longrightarrow>
        entry nbobjs distances i j = entry nbobjs distances j i
      \<and> entry nbobjs distances i i < entry nbobjs distances i j)"
proof
  assume ok: "matrix_ok nbobjs distances"
  have pairs: "entry nbobjs distances i j = entry nbobjs distances j i
      \<and> entry nbobjs distances i i < entry nbobjs distances i j"
    if "i \<in> set [0..<nbobjs]" "j \<in> set [i + 1..<nbobjs]" for i j
  proof -
    have "\<not> entry nbobjs distances i j \<noteq> entry nbobjs distances j i
        \<and> \<not> entry nbobjs distances i j \<le> entry nbobjs distances i i"
      using ok that unfolding matrix_ok_def list_all_iff by blast
    then show ?thesis by (simp add: not_le)
  qed
  show "\<forall>i j. i < j \<and> j < nbobjs \<longrightarrow>
        entry nbobjs distances i j = entry nbobjs distances j i
      \<and> entry nbobjs distances i i < entry nbobjs distances i j"
  proof (intro allI impI)
    fix i j assume ij: "i < j \<and> j < nbobjs"
    then have "i \<in> set [0..<nbobjs]" "j \<in> set [i + 1..<nbobjs]" by simp_all
    then show "entry nbobjs distances i j = entry nbobjs distances j i
      \<and> entry nbobjs distances i i < entry nbobjs distances i j"
      by (rule pairs)
  qed
next
  assume "\<forall>i j. i < j \<and> j < nbobjs \<longrightarrow>
        entry nbobjs distances i j = entry nbobjs distances j i
      \<and> entry nbobjs distances i i < entry nbobjs distances i j"
  then have all: "\<And>i j. i < j \<and> j < nbobjs \<Longrightarrow>
        entry nbobjs distances i j = entry nbobjs distances j i
      \<and> entry nbobjs distances i i < entry nbobjs distances i j"
    by blast
  show "matrix_ok nbobjs distances"
    unfolding matrix_ok_def list_all_iff
  proof (intro ballI)
    fix i j assume "i \<in> set [0..<nbobjs]" "j \<in> set [i + 1..<nbobjs]"
    then have "i < j \<and> j < nbobjs" by simp
    from all [OF this]
    show "\<not> entry nbobjs distances i j \<noteq> entry nbobjs distances j i
        \<and> \<not> entry nbobjs distances i j \<le> entry nbobjs distances i i"
      by (simp add: not_le)
  qed
qed

lemma last_diagonal_clustering:
  "hwloc_setup_group_from_min_distance 4
     [0, 10, 20, 20,  10, 0, 20, 20,  20, 20, 0, 10,  20, 20, 10, 100] = Some (2, [1, 1, 2, 2])"
  by code_simp

lemma last_diagonal_ok:
  "matrix_ok 4 [0, 10, 20, 20,  10, 0, 20, 20,  20, 20, 0, 10,  20, 20, 10, 100]"
  by code_simp

text \<open>
  C1.  The matrix below is symmetric, but its last diagonal entry (3,3) is 100, larger than
  the entry (3,2) = 10 of its row.  The check accepts it, and the grouping creates two Group
  objects: the check compares the diagonal entry of a row with the entries to its right
  only (see \<open>matrix_ok_iff\<close>), so the diagonal entry of the last row is never compared.
\<close>

theorem last_diagonal_unchecked:
  "matrix_ok 4 [0, 10, 20, 20,  10, 0, 20, 20,  20, 20, 0, 10,  20, 20, 10, 100]
   \<and> entry 4 [0, 10, 20, 20,  10, 0, 20, 20,  20, 20, 0, 10,  20, 20, 10, 100] 3 3 = 100
   \<and> entry 4 [0, 10, 20, 20,  10, 0, 20, 20,  20, 20, 0, 10,  20, 20, 10, 100] 3 2 = 10
   \<and> hwloc_setup_groups_from_distances False fresh 4 [obj0, obj1, obj2, obj3]
        [0, 10, 20, 20,  10, 0, 20, 20,  20, 20, 0, 10,  20, 20, 10, 100]
      = Inr [new_group fresh (cpuset obj0 \<union> cpuset obj1) 0,
             new_group fresh (cpuset obj2 \<union> cpuset obj3) 0]"
proof -
  let ?m = "[0, 10, 20, 20,  10, 0, 20, 20,  20, 20, 0, 10,  20, 20, 10, 100] :: real list"
  let ?objs = "[obj0, obj1, obj2, obj3]"
  have range: "[0..<4] = [0, 1, 2, 3]" by (simp add: upt_rec)
  have ids: "\<forall>i < 4. 0 < [1, 1, 2, 2 :: nat] ! i \<and> [1, 1, 2, 2 :: nat] ! i \<le> 2"
    by (simp add: eval_nat_numeral All_less_Suc)
  have sets: "group_cpuset 4 ?objs [1, 1, 2, 2] 0 = cpuset obj0 \<union> cpuset obj1"
    "group_cpuset 4 ?objs [1, 1, 2, 2] 1 = cpuset obj2 \<union> cpuset obj3"
    by (simp_all add: group_cpuset_def range)
  have "hwloc__setup_groups_from_distances fresh 4 ?objs ?m 0
      = Inr [new_group fresh (group_cpuset 4 ?objs [1, 1, 2, 2] 0) 0,
             new_group fresh (group_cpuset 4 ?objs [1, 1, 2, 2] 1) 0]"
    by (rule setup_groups_two [OF _ last_diagonal_clustering ids]) simp
  from this [unfolded sets] last_diagonal_ok
  have "hwloc_setup_groups_from_distances False fresh 4 ?objs ?m
      = Inr [new_group fresh (cpuset obj0 \<union> cpuset obj1) 0,
             new_group fresh (cpuset obj2 \<union> cpuset obj3) 0]"
    by (simp add: hwloc_setup_groups_from_distances_def)
  moreover have "entry 4 ?m 3 3 = 100" "entry 4 ?m 3 2 = 10"
    by (simp_all add: entry_def)
  ultimately show ?thesis using last_diagonal_ok by simp
qed

lemma lone_object_clustering:
  "hwloc_setup_group_from_min_distance 5
     [0, 10, 20, 20, 20,  10, 0, 20, 20, 20,  20, 20, 0, 10, 20,  20, 20, 10, 0, 20,
      20, 20, 20, 20, 0] = Some (2, [1, 1, 2, 2, 0])"
  by code_simp

lemma lone_object_ok:
  "matrix_ok 5
     [0, 10, 20, 20, 20,  10, 0, 20, 20, 20,  20, 20, 0, 10, 20,  20, 20, 10, 0, 20,
      20, 20, 20, 20, 0]"
  by code_simp

text \<open>
  C10.  Five objects, two pairs at distance 10 and a fifth object at distance 20 from all
  others: the matrix passes the check, the clustering commits 2 groups and leaves the fifth
  object with group id 0, and the factorization then indexes the array of group distances
  at \<open>groupids[4] - 1\<close>, which is 4294967295 for the unsigned 0: out of its bounds.
\<close>

theorem lone_object_out_of_bounds:
  "matrix_ok 5
     [0, 10, 20, 20, 20,  10, 0, 20, 20, 20,  20, 20, 0, 10, 20,  20, 20, 10, 0, 20,
      20, 20, 20, 20, 0]
   \<and> hwloc_setup_group_from_min_distance 5
       [0, 10, 20, 20, 20,  10, 0, 20, 20, 20,  20, 20, 0, 10, 20,  20, 20, 10, 0, 20,
        20, 20, 20, 20, 0] = Some (2, [1, 1, 2, 2, 0])
   \<and> group_index ([1, 1, 2, 2, 0] ! 4) = 4294967295
   \<and> hwloc_setup_groups_from_distances False fresh 5 objs
       [0, 10, 20, 20, 20,  10, 0, 20, 20, 20,  20, 20, 0, 10, 20,  20, 20, 10, 0, 20,
        20, 20, 20, 20, 0] = Inl OutOfBounds"
proof -
  let ?m = "[0, 10, 20, 20, 20,  10, 0, 20, 20, 20,  20, 20, 0, 10, 20,  20, 20, 10, 0, 20,
      20, 20, 20, 20, 0] :: real list"
  have "hwloc__setup_groups_from_distances fresh 5 objs ?m 0 = Inl OutOfBounds"
    by (rule setup_groups_ungrouped [OF _ lone_object_clustering, of 4]) simp_all
  then have "hwloc_setup_groups_from_distances False fresh 5 objs ?m = Inl OutOfBounds"
    using lone_object_ok by (simp add: hwloc_setup_groups_from_distances_def)
  moreover have "group_index ([1, 1, 2, 2, 0] ! 4) = 4294967295"
    by (simp add: group_index_def)
  ultimately show ?thesis using lone_object_ok lone_object_clustering by simp
qed

text \<open>
  C9.  The clustering returns on every input (its inner \<open>while\<close> loop ends); each group
  it commits has at least two of the \<open>nbobjs\<close> positions of \<open>groupids\<close>, so twice the
  number of groups is at most \<open>nbobjs\<close>, and a recursive call, made on the number of
  groups when it is 2 or more, is on fewer objects; with at most 2 objects, or 0 or 1
  groups, the recursive procedure stops without creating a group.  The recursive procedure
  itself is a total function (its termination is proved where it is defined, with the
  number of objects as measure), and it never fails to return.
\<close>

theorem grouping_terminates:
  "(\<exists>nbgroups groupids.
       hwloc_setup_group_from_min_distance nbobjs distances = Some (nbgroups, groupids)
     \<and> length groupids = nbobjs
     \<and> (\<forall>c. 1 \<le> c \<and> c \<le> nbgroups \<longrightarrow> 2 \<le> count_list groupids c)
     \<and> 2 * nbgroups \<le> nbobjs
     \<and> (2 \<le> nbgroups \<longrightarrow> nbgroups < nbobjs)
     \<and> (nbobjs \<le> 2 \<or> nbgroups \<le> 1 \<longrightarrow>
          hwloc__setup_groups_from_distances fresh nbobjs objs distances depth' = Inr []))
   \<and> hwloc__setup_groups_from_distances fresh nbobjs objs distances depth' \<noteq> Inl Diverges"
proof -
  obtain nbgroups groupids where
    c: "hwloc_setup_group_from_min_distance nbobjs distances = Some (nbgroups, groupids)"
    and len: "length groupids = nbobjs"
    and below: "\<forall>x \<in> set groupids. x \<le> nbgroups"
    and two: "\<forall>c. 1 \<le> c \<and> c \<le> nbgroups \<longrightarrow> 2 \<le> count_list groupids c"
    using clustering_returns [of nbobjs distances] by blast
  have half: "2 * nbgroups \<le> nbobjs"
    by (rule committed_count [OF len below two])
  then have less: "2 \<le> nbgroups \<longrightarrow> nbgroups < nbobjs" by simp
  have stop: "nbobjs \<le> 2 \<or> nbgroups \<le> 1 \<longrightarrow>
      hwloc__setup_groups_from_distances fresh nbobjs objs distances depth' = Inr []"
    using setup_groups_small [of nbobjs] setup_groups_few [OF c] by blast
  from c len two half less stop setup_groups_returns show ?thesis by blast
qed

theorem grouping_terminates_witness:
  "hwloc_setup_group_from_min_distance 4
     [0, 10, 20, 20,  10, 0, 20, 20,  20, 20, 0, 10,  20, 20, 10, 0] = Some (2, [1, 1, 2, 2])
   \<and> 2 \<le> count_list [1, 1, 2, 2 :: nat] 1 \<and> 2 \<le> count_list [1, 1, 2, 2 :: nat] 2
   \<and> (2::nat) < 4
   \<and> hwloc__setup_groups_from_distances (Obj 7 4294967295 0 0 {} 0 [] []) 4
        [Obj 2 0 1 0 {0} 0 [] [], Obj 2 1 1 1 {1} 0 [] [],
         Obj 2 2 1 2 {2} 0 [] [], Obj 2 3 1 3 {3} 0 [] []]
        [0, 10, 20, 20,  10, 0, 20, 20,  20, 20, 0, 10,  20, 20, 10, 0] 0 \<noteq> Inl Diverges"
  using grouping_terminates [of 4 "[0, 10, 20, 20,  10, 0, 20, 20,  20, 20, 0, 10,  20, 20, 10, 0]"
      "Obj 7 4294967295 0 0 {} 0 [] []"
      "[Obj 2 0 1 0 {0} 0 [] [], Obj 2 1 1 1 {1} 0 [] [],
        Obj 2 2 1 2 {2} 0 [] [], Obj 2 3 1 3 {3} 0 [] []]" 0]
    two_pairs_clustering
  by auto

section \<open>Properties of the normalization\<close>

lemma nested_fold_flat:
  "fold (\<lambda>i. fold (\<lambda>j. f (i * n + j)) [0..<n]) [0..<m] s = fold f [0..<m * n] s"
proof (induction m)
  case 0
  then show ?case by simp
next
  case (Suc m)
  have "[m * n..<m * n + n] = map (\<lambda>j. m * n + j) [0..<n]"
    using map_add_upt [of "m * n" n] by (simp add: add.commute)
  then have row: "fold f [m * n..<m * n + n] = fold (\<lambda>j. f (m * n + j)) [0..<n]"
    by (simp add: fold_map comp_def)
  have "[0..<Suc m * n] = [0..<m * n] @ [m * n..<m * n + n]"
    using upt_add_eq_append [of 0 "m * n" n] by (simp add: add.commute)
  then show ?case using Suc row by simp
qed

lemma fold_nth: "fold (\<lambda>k. g (xs ! k)) [0..<length xs] s = fold g xs s"
proof -
  have "fold g (map (nth xs) [0..<length xs]) s = fold (\<lambda>k. g (xs ! k)) [0..<length xs] s"
    by (simp add: fold_map comp_def)
  then show ?thesis by (simp add: map_nth)
qed

lemma fold_min_max:
  "fold (\<lambda>val mm. (if val < fst mm then val else fst mm, if val > snd mm then val else snd mm))
        xs mm
     = (fold min xs (fst mm), fold max xs (snd mm :: real))"
  by (induction xs arbitrary: mm) (simp_all add: min_def max_def)

lemma min_max_eq:
  assumes "length osmatrix = nbobjs * nbobjs"
  shows "min_max nbobjs osmatrix = (fold min osmatrix FLT_MAX, fold max osmatrix FLT_MIN)"
proof -
  let ?step = "\<lambda>val mm. (if val < fst mm then val else fst mm,
                           if val > snd mm then val else snd mm :: real)"
  have "min_max nbobjs osmatrix
      = fold (\<lambda>i. fold (\<lambda>j. ?step (osmatrix ! (i * nbobjs + j))) [0..<nbobjs]) [0..<nbobjs]
          (FLT_MAX, FLT_MIN)"
    by (simp add: min_max_def Let_def)
  also have "\<dots> = fold (\<lambda>k. ?step (osmatrix ! k)) [0..<nbobjs * nbobjs] (FLT_MAX, FLT_MIN)"
    by (rule nested_fold_flat [of "\<lambda>k. ?step (osmatrix ! k)"])
  also have "\<dots> = fold ?step osmatrix (FLT_MAX, FLT_MIN)"
    using fold_nth [of ?step osmatrix] assms by simp
  finally show ?thesis by (simp add: fold_min_max)
qed

lemma fold_min_Min: "fold min xs (a :: real) = Min (insert a (set xs))"
  using Min.set_eq_fold [of a xs] by simp

lemma fold_max_Max: "fold max xs (a :: real) = Max (insert a (set xs))"
  using Max.set_eq_fold [of a xs] by simp

lemma min_max_min:
  assumes "length osmatrix = nbobjs * nbobjs" "0 < nbobjs"
  shows "fst (min_max nbobjs osmatrix) = min FLT_MAX (Min (set osmatrix))"
    and "snd (min_max nbobjs osmatrix) = max FLT_MIN (Max (set osmatrix))"
proof -
  from assms have "osmatrix \<noteq> []" by auto
  then show "fst (min_max nbobjs osmatrix) = min FLT_MAX (Min (set osmatrix))"
    and "snd (min_max nbobjs osmatrix) = max FLT_MIN (Max (set osmatrix))"
    by (simp_all add: min_max_eq [OF assms(1)] fold_min_Min fold_max_Max)
qed

lemma FLT_MAX_pos: "0 < FLT_MAX"
  by (simp add: FLT_MAX_def)

text \<open>The cell written for the pair of input positions \<open>(i, j)\<close>, and the value written.\<close>

definition cell :: "nat \<Rightarrow> hwloc_obj list \<Rightarrow> nat \<Rightarrow> nat \<Rightarrow> nat \<Rightarrow> nat" where
  "cell nbobjs objs minl i j =
     (logical_index (objs ! i) - minl) * nbobjs + (logical_index (objs ! j) - minl)"

definition normalized :: "nat \<Rightarrow> real list \<Rightarrow> real \<Rightarrow> nat \<Rightarrow> nat \<Rightarrow> real" where
  "normalized nbobjs osmatrix min' i j = osmatrix ! (i * nbobjs + j) / min'"

definition fill_writes ::
  "nat \<Rightarrow> hwloc_obj list \<Rightarrow> real list \<Rightarrow> nat \<Rightarrow> real \<Rightarrow> (nat \<times> real) list" where
  "fill_writes nbobjs objs osmatrix minl min' =
     concat (map (\<lambda>i. (cell nbobjs objs minl i i, normalized nbobjs osmatrix min' i i)
                      # concat (map (\<lambda>j. [(cell nbobjs objs minl i j,
                                             normalized nbobjs osmatrix min' i j),
                                            (cell nbobjs objs minl j i,
                                             normalized nbobjs osmatrix min' j i)])
                                    [i + 1..<nbobjs]))
                 [0..<nbobjs])"

lemma fold_concat_map:
  "fold g (concat (map h xs)) = fold (\<lambda>x. fold g (h x)) xs"
proof
  fix s show "fold g (concat (map h xs)) s = fold (\<lambda>x. fold g (h x)) xs s"
    by (induction xs arbitrary: s) simp_all
qed

lemma store_Inr:
  "store k v (Inr cells) = (if k < length cells then Inr (cells[k := Some v]) else Inl OutOfBounds)"
  by (simp add: store_def)

lemma store_Inl: "store k v (Inl f) = Inl f"
  by (simp add: store_def)

lemma fill_latency_writes:
  "fill_latency nbobjs objs osmatrix minl min'
     = fold (\<lambda>w. store (fst w) (snd w)) (fill_writes nbobjs objs osmatrix minl min')
         (Inr (replicate (nbobjs * nbobjs) None))"
  by (simp add: fill_latency_def fill_writes_def fold_concat_map Let_def cell_def normalized_def
        comp_def)

lemma in_fill_writes:
  "w \<in> set (fill_writes nbobjs objs osmatrix minl min') \<longleftrightarrow>
     (\<exists>i \<in> {0..<nbobjs}.
        w = (cell nbobjs objs minl i i, normalized nbobjs osmatrix min' i i)
      \<or> (\<exists>j \<in> {Suc i..<nbobjs}.
            w = (cell nbobjs objs minl i j, normalized nbobjs osmatrix min' i j)
          \<or> w = (cell nbobjs objs minl j i, normalized nbobjs osmatrix min' j i)))"
  by (simp add: fill_writes_def)

lemma set_fill_writes:
  "set (fill_writes nbobjs objs osmatrix minl min')
     = {(cell nbobjs objs minl i j, normalized nbobjs osmatrix min' i j) | i j.
          i < nbobjs \<and> j < nbobjs}"
  (is "?L = ?R")
proof
  show "?L \<subseteq> ?R"
  proof
    fix w assume "w \<in> ?L"
    then obtain i where i': "i \<in> {0..<nbobjs}"
      and w: "w = (cell nbobjs objs minl i i, normalized nbobjs osmatrix min' i i)
      \<or> (\<exists>j \<in> {Suc i..<nbobjs}.
            w = (cell nbobjs objs minl i j, normalized nbobjs osmatrix min' i j)
          \<or> w = (cell nbobjs objs minl j i, normalized nbobjs osmatrix min' j i))"
      unfolding in_fill_writes by blast
    from i' have i: "i < nbobjs" by simp
    from w show "w \<in> ?R"
    proof
      assume "w = (cell nbobjs objs minl i i, normalized nbobjs osmatrix min' i i)"
      with i show ?thesis by blast
    next
      assume "\<exists>j \<in> {Suc i..<nbobjs}.
            w = (cell nbobjs objs minl i j, normalized nbobjs osmatrix min' i j)
          \<or> w = (cell nbobjs objs minl j i, normalized nbobjs osmatrix min' j i)"
      then obtain j where j': "j \<in> {Suc i..<nbobjs}" and
        "w = (cell nbobjs objs minl i j, normalized nbobjs osmatrix min' i j)
         \<or> w = (cell nbobjs objs minl j i, normalized nbobjs osmatrix min' j i)" by blast
      moreover from j' have "j < nbobjs" by simp
      ultimately show ?thesis using i by blast
    qed
  qed
  show "?R \<subseteq> ?L"
  proof
    fix w assume "w \<in> ?R"
    then obtain i j where w: "w = (cell nbobjs objs minl i j, normalized nbobjs osmatrix min' i j)"
      and ij: "i < nbobjs" "j < nbobjs" by blast
    consider "i = j" | "i < j" | "j < i" by linarith
    then show "w \<in> ?L"
    proof cases
      case 1
      with w ij have "i \<in> {0..<nbobjs}"
        "w = (cell nbobjs objs minl i i, normalized nbobjs osmatrix min' i i)" by simp_all
      then show ?thesis unfolding in_fill_writes by blast
    next
      case 2
      with w ij have "i \<in> {0..<nbobjs}" "j \<in> {Suc i..<nbobjs}" by simp_all
      with w show ?thesis unfolding in_fill_writes by blast
    next
      case 3
      with w ij have "j \<in> {0..<nbobjs}" "i \<in> {Suc j..<nbobjs}" by simp_all
      with w show ?thesis unfolding in_fill_writes by blast
    qed
  qed
qed

lemma stores_fault: "fold (\<lambda>w. store (fst w) (snd w)) ws (Inl f) = Inl f"
  by (induction ws) (simp_all add: store_Inl)

lemma stores_faults:
  "fold (\<lambda>w. store (fst w) (snd w)) ws (Inr cells) = Inl f \<Longrightarrow> f = OutOfBounds"
proof (induction ws arbitrary: cells)
  case Nil
  then show ?case by simp
next
  case (Cons w ws)
  show ?case
  proof (cases "fst w < length cells")
    case True
    with Cons.prems have "fold (\<lambda>w. store (fst w) (snd w)) ws (Inr (cells[fst w := Some (snd w)]))
        = Inl f" by (simp add: store_Inr)
    then show ?thesis by (rule Cons.IH)
  next
    case False
    with Cons.prems show ?thesis by (simp add: store_Inr stores_fault)
  qed
qed

lemma stores_in_bounds:
  "fold (\<lambda>w. store (fst w) (snd w)) ws (Inr cells) = Inr cells' \<Longrightarrow>
     (\<forall>w \<in> set ws. fst w < length cells) \<and> length cells' = length cells"
proof (induction ws arbitrary: cells)
  case Nil
  then show ?case by simp
next
  case (Cons w ws)
  show ?case
  proof (cases "fst w < length cells")
    case True
    with Cons.prems have "fold (\<lambda>w. store (fst w) (snd w)) ws (Inr (cells[fst w := Some (snd w)]))
        = Inr cells'" by (simp add: store_Inr)
    from Cons.IH [OF this] True show ?thesis by simp
  next
    case False
    with Cons.prems show ?thesis by (simp add: store_Inr stores_fault)
  qed
qed

lemma stores_result:
  assumes "\<forall>w \<in> set ws. fst w < length cells"
  shows "\<exists>cells'. fold (\<lambda>w. store (fst w) (snd w)) ws (Inr cells) = Inr cells'
           \<and> length cells' = length cells
           \<and> (\<forall>k. k \<notin> fst ` set ws \<longrightarrow> cells' ! k = cells ! k)
           \<and> (\<forall>k x. k \<in> fst ` set ws \<and> (\<forall>w \<in> set ws. fst w = k \<longrightarrow> snd w = x)
                  \<longrightarrow> cells' ! k = Some x)"
  using assms
proof (induction ws arbitrary: cells)
  case Nil
  then show ?case by simp
next
  case (Cons w ws)
  let ?c1 = "cells[fst w := Some (snd w)]"
  from Cons.prems have w: "fst w < length cells" and rest: "\<forall>w \<in> set ws. fst w < length ?c1"
    by simp_all
  from Cons.IH [OF rest] obtain cells' where r:
    "fold (\<lambda>w. store (fst w) (snd w)) ws (Inr ?c1) = Inr cells'"
    "length cells' = length ?c1"
    "\<forall>k. k \<notin> fst ` set ws \<longrightarrow> cells' ! k = ?c1 ! k"
    "\<forall>k x. k \<in> fst ` set ws \<and> (\<forall>w \<in> set ws. fst w = k \<longrightarrow> snd w = x) \<longrightarrow> cells' ! k = Some x"
    by blast
  have 1: "fold (\<lambda>w. store (fst w) (snd w)) (w # ws) (Inr cells) = Inr cells'"
    using w r(1) by (simp add: store_Inr)
  have 2: "length cells' = length cells" using r(2) by simp
  have 3: "\<forall>k. k \<notin> fst ` set (w # ws) \<longrightarrow> cells' ! k = cells ! k"
    using r(3) by auto
  have 4: "\<forall>k x. k \<in> fst ` set (w # ws) \<and> (\<forall>w' \<in> set (w # ws). fst w' = k \<longrightarrow> snd w' = x)
      \<longrightarrow> cells' ! k = Some x"
  proof (intro allI impI)
    fix k x
    assume a: "k \<in> fst ` set (w # ws) \<and> (\<forall>w' \<in> set (w # ws). fst w' = k \<longrightarrow> snd w' = x)"
    show "cells' ! k = Some x"
    proof (cases "k \<in> fst ` set ws")
      case True
      with a r(4) show ?thesis by simp
    next
      case False
      with a have k: "k = fst w" "snd w = x" by auto
      from False r(3) have "cells' ! k = ?c1 ! k" by simp
      with k w show ?thesis by simp
    qed
  qed
  from 1 2 3 4 show ?case by blast
qed

lemma flat_index_inj:
  assumes "b < n" "b' < n" "a * n + b = a' * n + (b' :: nat)"
  shows "a = a' \<and> b = b'"
proof -
  from assms(3) have "(a * n + b) div n = (a' * n + b') div n"
    and "(a * n + b) mod n = (a' * n + b') mod n" by simp_all
  with assms(1,2) show ?thesis by simp
qed

lemma flat_index_less:
  assumes "a < n" "b < (n :: nat)"
  shows "a * n + b < n * n"
proof -
  from assms(2) have "a * n + b < a * n + n" by simp
  also have "\<dots> = Suc a * n" by simp
  also from assms(1) have "\<dots> \<le> n * n" by (intro mult_le_mono1) simp
  finally show ?thesis .
qed

lemma flat_index_diag:
  assumes "a * n + a < n * (n :: nat)"
  shows "a < n"
proof (rule ccontr)
  assume "\<not> a < n"
  then have "n * n \<le> a * n" by (intro mult_le_mono1) simp
  with assms show False by simp
qed

lemma fill_latency_in_bounds:
  assumes "\<forall>i < nbobjs. logical_index (objs ! i) - minl < nbobjs"
  shows "\<forall>w \<in> set (fill_writes nbobjs objs osmatrix minl min').
           fst w < length (replicate (nbobjs * nbobjs) (None :: real option))"
proof
  fix w assume "w \<in> set (fill_writes nbobjs objs osmatrix minl min')"
  then obtain i j where "w = (cell nbobjs objs minl i j, normalized nbobjs osmatrix min' i j)"
    "i < nbobjs" "j < nbobjs" unfolding set_fill_writes by blast
  with assms show "fst w < length (replicate (nbobjs * nbobjs) (None :: real option))"
    by (simp add: cell_def flat_index_less)
qed

lemma fill_latency_returns:
  assumes "\<forall>i < nbobjs. logical_index (objs ! i) - minl < nbobjs"
  shows "\<exists>cells. fill_latency nbobjs objs osmatrix minl min' = Inr cells
           \<and> length cells = nbobjs * nbobjs"
  using stores_result [OF fill_latency_in_bounds [OF assms, of osmatrix min']]
  unfolding fill_latency_writes by auto

lemma fill_latency_faults:
  "fill_latency nbobjs objs osmatrix minl min' = Inl f \<Longrightarrow> f = OutOfBounds"
  unfolding fill_latency_writes by (rule stores_faults)

lemma fill_latency_cells:
  assumes range: "\<forall>i < nbobjs. logical_index (objs ! i) - minl < nbobjs"
    and inj: "\<forall>i < nbobjs. \<forall>j < nbobjs.
                logical_index (objs ! i) - minl = logical_index (objs ! j) - minl \<longrightarrow> i = j"
    and res: "fill_latency nbobjs objs osmatrix minl min' = Inr cells"
    and ij: "i < nbobjs" "j < nbobjs"
  shows "cells ! cell nbobjs objs minl i j = Some (normalized nbobjs osmatrix min' i j)"
proof -
  let ?ws = "fill_writes nbobjs objs osmatrix minl min'"
  from stores_result [OF fill_latency_in_bounds [OF range, of osmatrix min']] res
  have all: "\<forall>k x. k \<in> fst ` set ?ws \<and> (\<forall>w \<in> set ?ws. fst w = k \<longrightarrow> snd w = x)
                \<longrightarrow> cells ! k = Some x"
    unfolding fill_latency_writes by auto
  have "(cell nbobjs objs minl i j, normalized nbobjs osmatrix min' i j) \<in> set ?ws"
    unfolding set_fill_writes using ij by blast
  then have written: "cell nbobjs objs minl i j \<in> fst ` set ?ws" by force
  have same: "\<forall>w \<in> set ?ws. fst w = cell nbobjs objs minl i j
      \<longrightarrow> snd w = normalized nbobjs osmatrix min' i j"
  proof (intro ballI impI)
    fix w assume "w \<in> set ?ws" and k: "fst w = cell nbobjs objs minl i j"
    then obtain i' j' where w: "w = (cell nbobjs objs minl i' j', normalized nbobjs osmatrix min' i' j')"
      and ij': "i' < nbobjs" "j' < nbobjs" unfolding set_fill_writes by blast
    from k w have "cell nbobjs objs minl i' j' = cell nbobjs objs minl i j" by simp
    with range ij ij'
    have "logical_index (objs ! i') - minl = logical_index (objs ! i) - minl
        \<and> logical_index (objs ! j') - minl = logical_index (objs ! j) - minl"
      unfolding cell_def by (intro flat_index_inj [of _ nbobjs]) simp_all
    with inj ij ij' have "i' = i" "j' = j" by simp_all
    with w show "snd w = normalized nbobjs osmatrix min' i j" by simp
  qed
  from all written same show ?thesis by blast
qed

lemma fill_latency_range:
  assumes "fill_latency nbobjs objs osmatrix minl min' = Inr cells"
  shows "length cells = nbobjs * nbobjs"
    and "\<forall>i < nbobjs. logical_index (objs ! i) - minl < nbobjs"
proof -
  from stores_in_bounds [OF assms [unfolded fill_latency_writes]]
  have b: "\<forall>w \<in> set (fill_writes nbobjs objs osmatrix minl min'). fst w < nbobjs * nbobjs"
    and l: "length cells = nbobjs * nbobjs" by simp_all
  show "length cells = nbobjs * nbobjs" by (rule l)
  show "\<forall>i < nbobjs. logical_index (objs ! i) - minl < nbobjs"
  proof (intro allI impI)
    fix i assume i: "i < nbobjs"
    then have "(cell nbobjs objs minl i i, normalized nbobjs osmatrix min' i i)
        \<in> set (fill_writes nbobjs objs osmatrix minl min')"
      unfolding set_fill_writes by blast
    with b have "cell nbobjs objs minl i i < nbobjs * nbobjs" by fastforce
    then show "logical_index (objs ! i) - minl < nbobjs"
      unfolding cell_def by (rule flat_index_diag)
  qed
qed

lemma fold_min_index_le:
  "fold (\<lambda>i minl. if minl > f i then f i else minl) is (a :: nat) \<le> a
   \<and> (\<forall>i \<in> set is. fold (\<lambda>i minl. if minl > f i then f i else minl) is a \<le> f i)"
proof (induction "is" arbitrary: a)
  case Nil
  then show ?case by simp
next
  case (Cons x xs)
  from Cons.IH [of "if a > f x then f x else a"] show ?case
    by (auto split: if_splits intro: order_trans)
qed

lemma min_logical_index_le:
  "i < nbobjs \<Longrightarrow> min_logical_index nbobjs objs \<le> logical_index (objs ! i)"
  using fold_min_index_le [of "\<lambda>i. logical_index (objs ! i)" "[0..<nbobjs]" 4294967295]
  by (simp add: min_logical_index_def)

lemma distinct_reindexed:
  assumes "distinct (map logical_index (take nbobjs objs))" "nbobjs \<le> length objs"
  shows "\<forall>i < nbobjs. \<forall>j < nbobjs.
           logical_index (objs ! i) - min_logical_index nbobjs objs
             = logical_index (objs ! j) - min_logical_index nbobjs objs \<longrightarrow> i = j"
proof (intro allI impI)
  fix i j assume ij: "i < nbobjs" "j < nbobjs"
    and eq: "logical_index (objs ! i) - min_logical_index nbobjs objs
             = logical_index (objs ! j) - min_logical_index nbobjs objs"
  from ij eq min_logical_index_le [of i nbobjs objs] min_logical_index_le [of j nbobjs objs]
  have "logical_index (objs ! i) = logical_index (objs ! j)" by linarith
  with ij assms(2) have "map logical_index (take nbobjs objs) ! i
      = map logical_index (take nbobjs objs) ! j" by simp
  with assms ij show "i = j"
    by (auto simp: distinct_conv_nth)
qed

lemma attach_inject: "attach root' d = attach root' d' \<Longrightarrow> d = d'"
  by (simp add: attach_def)

lemma attach_neq: "attach root' d \<noteq> root'"
proof
  assume "attach root' d = root'"
  then have "obj_distances (attach root' d) = obj_distances root'" by simp
  then show False by (simp add: attach_def)
qed

lemma normalize_unfold:
  assumes "hwloc_get_obj_covering_cpuset (cpuset_union nbobjs objs) = Some root'"
  shows "hwloc_setup_distances_from_os_matrix hwloc_get_obj_covering_cpuset nbobjs objs osmatrix =
     (if cpuset_union nbobjs objs \<noteq> cpuset root' then Inr root'
      else if nbobjs = 0 then Inl OutOfBounds
      else if fst (min_max nbobjs osmatrix) = 0 then Inr root'
      else case fill_latency nbobjs objs osmatrix (min_logical_index nbobjs objs)
                  (fst (min_max nbobjs osmatrix)) of
             Inl f \<Rightarrow> Inl f
           | Inr matrix \<Rightarrow>
               Inr (attach root'
                      \<lparr>relative_depth =
                         (depth (objs ! 0) + 4294967296 - depth root') mod 4294967296,
                       dist_nbobjs = nbobjs, latency = matrix,
                       latency_max = snd (min_max nbobjs osmatrix) / fst (min_max nbobjs osmatrix),
                       latency_base = fst (min_max nbobjs osmatrix)\<rparr>))"
  by (simp add: hwloc_setup_distances_from_os_matrix_def assms Let_def)

lemma normalize_attached:
  assumes res: "hwloc_setup_distances_from_os_matrix hwloc_get_obj_covering_cpuset nbobjs objs
                osmatrix = Inr (attach root' d)"
    and cov: "hwloc_get_obj_covering_cpuset (cpuset_union nbobjs objs) = Some root'"
  shows "cpuset_union nbobjs objs = cpuset root'" and "0 < nbobjs"
    and "fst (min_max nbobjs osmatrix) \<noteq> 0"
    and "fill_latency nbobjs objs osmatrix (min_logical_index nbobjs objs)
           (fst (min_max nbobjs osmatrix)) = Inr (latency d)"
    and "latency_base d = fst (min_max nbobjs osmatrix)"
    and "latency_max d = snd (min_max nbobjs osmatrix) / fst (min_max nbobjs osmatrix)"
    and "dist_nbobjs d = nbobjs"
proof -
  note r = res [unfolded normalize_unfold
      [of hwloc_get_obj_covering_cpuset nbobjs objs root' osmatrix, OF cov]]
  show 1: "cpuset_union nbobjs objs = cpuset root'"
    using r attach_neq [of root' d] by (auto split: if_splits)
  show 2: "0 < nbobjs"
    using r 1 by (auto split: if_splits)
  show 3: "fst (min_max nbobjs osmatrix) \<noteq> 0"
    using r 1 2 attach_neq [of root' d] by (auto split: if_splits)
  from r 1 2 3 obtain matrix where
    m: "fill_latency nbobjs objs osmatrix (min_logical_index nbobjs objs)
           (fst (min_max nbobjs osmatrix)) = Inr matrix"
    and a: "attach root'
              \<lparr>relative_depth = (depth (objs ! 0) + 4294967296 - depth root') mod 4294967296,
               dist_nbobjs = nbobjs, latency = matrix,
               latency_max = snd (min_max nbobjs osmatrix) / fst (min_max nbobjs osmatrix),
               latency_base = fst (min_max nbobjs osmatrix)\<rparr> = attach root' d"
    by (auto split: sum.splits)
  from attach_inject [OF a] have d: "d =
      \<lparr>relative_depth = (depth (objs ! 0) + 4294967296 - depth root') mod 4294967296,
       dist_nbobjs = nbobjs, latency = matrix,
       latency_max = snd (min_max nbobjs osmatrix) / fst (min_max nbobjs osmatrix),
       latency_base = fst (min_max nbobjs osmatrix)\<rparr>" by simp
  show "fill_latency nbobjs objs osmatrix (min_logical_index nbobjs objs)
           (fst (min_max nbobjs osmatrix)) = Inr (latency d)"
    using m d by simp
  show "latency_base d = fst (min_max nbobjs osmatrix)" using d by simp
  show "latency_max d = snd (min_max nbobjs osmatrix) / fst (min_max nbobjs osmatrix)"
    using d by simp
  show "dist_nbobjs d = nbobjs" using d by simp
qed

text \<open>
  What an attached record holds, for objects with distinct logical indexes: the entry at
  the reindexed row and column of the input positions \<open>(i, j)\<close> is the raw entry
  \<open>(i, j)\<close> divided by \<open>latency_base\<close>.
\<close>

lemma normalize_attached_entry:
  assumes cov: "hwloc_get_obj_covering_cpuset (cpuset_union nbobjs objs) = Some root'"
    and res: "hwloc_setup_distances_from_os_matrix hwloc_get_obj_covering_cpuset nbobjs objs
                osmatrix = Inr (attach root' d)"
    and distinct: "distinct (map logical_index (take nbobjs objs))"
    and len: "nbobjs \<le> length objs"
    and ij: "i < nbobjs" "j < nbobjs"
  shows "latency d ! ((logical_index (objs ! i) - min_logical_index nbobjs objs) * nbobjs
                      + (logical_index (objs ! j) - min_logical_index nbobjs objs))
           = Some (osmatrix ! (i * nbobjs + j) / latency_base d)"
proof -
  note a = normalize_attached [OF res cov]
  from fill_latency_cells [OF fill_latency_range(2) [OF a(4)]
      distinct_reindexed [OF distinct len] a(4) ij]
  show ?thesis by (simp add: cell_def normalized_def a(5))
qed

text \<open>
  What decides between abandoning and attaching.  For a raw matrix of \<open>nbobjs * nbobjs\<close> entries over \<open>nbobjs > 0\<close> objects whose
  covering object is found: when the smallest raw entry is 0 the call returns the covering
  object as it was, no record attached; when the smallest raw entry is positive and the
  cpuset of the covering object equals the union of the objects' cpusets, the call does not
  abandon: it attaches a record, unless it writes outside the matrix it allocated; when
  moreover every reindexed position \<open>logical_index - minl\<close> is below \<open>nbobjs\<close> (the
  writes stay inside the \<open>nbobjs * nbobjs\<close> cells of the new matrix), one record is
  appended to the distances of the covering object, with the smallest raw entry (at most
  \<open>FLT_MAX\<close>) as its base.
\<close>

theorem zero_minimum_abandons:
  assumes "hwloc_get_obj_covering_cpuset (cpuset_union nbobjs objs) = Some root'"
    and "length osmatrix = nbobjs * nbobjs" and "0 < nbobjs"
  shows "(Min (set osmatrix) = 0 \<longrightarrow>
            hwloc_setup_distances_from_os_matrix hwloc_get_obj_covering_cpuset nbobjs objs
              osmatrix = Inr root')
       \<and> (0 < Min (set osmatrix) \<and> cpuset_union nbobjs objs = cpuset root'
          \<longrightarrow> hwloc_setup_distances_from_os_matrix hwloc_get_obj_covering_cpuset nbobjs objs
                osmatrix = Inl OutOfBounds
              \<or> (\<exists>d. hwloc_setup_distances_from_os_matrix hwloc_get_obj_covering_cpuset nbobjs
                       objs osmatrix = Inr (attach root' d)))
       \<and> (0 < Min (set osmatrix) \<and> cpuset_union nbobjs objs = cpuset root'
            \<and> (\<forall>i < nbobjs. logical_index (objs ! i) - min_logical_index nbobjs objs < nbobjs)
          \<longrightarrow> (\<exists>d. hwloc_setup_distances_from_os_matrix hwloc_get_obj_covering_cpuset nbobjs
                       objs osmatrix = Inr (attach root' d)
                  \<and> obj_distances (attach root' d) = obj_distances root' @ [d]
                  \<and> latency_base d = min FLT_MAX (Min (set osmatrix))))"
proof (intro conjI impI)
  assume "Min (set osmatrix) = 0"
  then have "fst (min_max nbobjs osmatrix) = 0"
    using min_max_min(1) [OF assms(2,3)] FLT_MAX_pos by simp
  then show "hwloc_setup_distances_from_os_matrix hwloc_get_obj_covering_cpuset nbobjs objs
              osmatrix = Inr root'"
    using assms(3)
    by (simp add: normalize_unfold
          [of hwloc_get_obj_covering_cpuset nbobjs objs root' osmatrix, OF assms(1)])
next
  assume a: "0 < Min (set osmatrix) \<and> cpuset_union nbobjs objs = cpuset root'"
  then have pos: "fst (min_max nbobjs osmatrix) \<noteq> 0"
    using min_max_min(1) [OF assms(2,3)] FLT_MAX_pos by (auto simp: min_def)
  show "hwloc_setup_distances_from_os_matrix hwloc_get_obj_covering_cpuset nbobjs objs
                osmatrix = Inl OutOfBounds
              \<or> (\<exists>d. hwloc_setup_distances_from_os_matrix hwloc_get_obj_covering_cpuset nbobjs
                       objs osmatrix = Inr (attach root' d))"
  proof (cases "fill_latency nbobjs objs osmatrix (min_logical_index nbobjs objs)
      (fst (min_max nbobjs osmatrix))")
    case (Inl f)
    with fill_latency_faults [OF Inl] a pos assms(3) show ?thesis
      by (simp add: normalize_unfold
            [of hwloc_get_obj_covering_cpuset nbobjs objs root' osmatrix, OF assms(1)])
  next
    case (Inr cells)
    with a pos assms(3)
    have "hwloc_setup_distances_from_os_matrix hwloc_get_obj_covering_cpuset nbobjs objs osmatrix
      = Inr (attach root'
               \<lparr>relative_depth = (depth (objs ! 0) + 4294967296 - depth root') mod 4294967296,
                dist_nbobjs = nbobjs, latency = cells,
                latency_max = snd (min_max nbobjs osmatrix) / fst (min_max nbobjs osmatrix),
                latency_base = fst (min_max nbobjs osmatrix)\<rparr>)"
      by (simp add: normalize_unfold
            [of hwloc_get_obj_covering_cpuset nbobjs objs root' osmatrix, OF assms(1)])
    then show ?thesis by blast
  qed
next
  assume a: "0 < Min (set osmatrix) \<and> cpuset_union nbobjs objs = cpuset root'
            \<and> (\<forall>i < nbobjs. logical_index (objs ! i) - min_logical_index nbobjs objs < nbobjs)"
  then have pos: "fst (min_max nbobjs osmatrix) \<noteq> 0"
    using min_max_min(1) [OF assms(2,3)] FLT_MAX_pos by (auto simp: min_def)
  from a fill_latency_returns [of nbobjs objs "min_logical_index nbobjs objs" osmatrix
      "fst (min_max nbobjs osmatrix)"]
  obtain cells where "fill_latency nbobjs objs osmatrix (min_logical_index nbobjs objs)
      (fst (min_max nbobjs osmatrix)) = Inr cells" by blast
  with a pos assms(3) have "hwloc_setup_distances_from_os_matrix hwloc_get_obj_covering_cpuset
      nbobjs objs osmatrix
    = Inr (attach root'
             \<lparr>relative_depth = (depth (objs ! 0) + 4294967296 - depth root') mod 4294967296,
              dist_nbobjs = nbobjs, latency = cells,
              latency_max = snd (min_max nbobjs osmatrix) / fst (min_max nbobjs osmatrix),
              latency_base = fst (min_max nbobjs osmatrix)\<rparr>)"
    by (simp add: normalize_unfold
          [of hwloc_get_obj_covering_cpuset nbobjs objs root' osmatrix, OF assms(1)])
  moreover have "obj_distances (attach root' d) = obj_distances root' @ [d]" for d
    by (simp add: attach_def)
  ultimately show "\<exists>d. hwloc_setup_distances_from_os_matrix hwloc_get_obj_covering_cpuset nbobjs
                       objs osmatrix = Inr (attach root' d)
                  \<and> obj_distances (attach root' d) = obj_distances root' @ [d]
                  \<and> latency_base d = min FLT_MAX (Min (set osmatrix))"
    using min_max_min(1) [OF assms(2,3)] by auto
qed

text \<open>
  C2, as amended.  When a record is attached, for objects with distinct logical indexes, the
  diagonal entry stored for input object \<open>i\<close> (row and column
  \<open>logical_index (objs[i]) - minl\<close>) is the raw diagonal entry \<open>(i, i)\<close> divided by
  \<open>latency_base\<close>; it is 1 exactly when that raw diagonal entry equals \<open>latency_base\<close>.
\<close>

theorem normalized_diagonal:
  assumes "hwloc_get_obj_covering_cpuset (cpuset_union nbobjs objs) = Some root'"
    and "hwloc_setup_distances_from_os_matrix hwloc_get_obj_covering_cpuset nbobjs objs
           osmatrix = Inr (attach root' d)"
    and "distinct (map logical_index (take nbobjs objs))"
    and "nbobjs \<le> length objs"
    and "i < nbobjs"
  shows "latency d ! ((logical_index (objs ! i) - min_logical_index nbobjs objs) * nbobjs
                      + (logical_index (objs ! i) - min_logical_index nbobjs objs))
           = Some (osmatrix ! (i * nbobjs + i) / latency_base d)
       \<and> (latency d ! ((logical_index (objs ! i) - min_logical_index nbobjs objs) * nbobjs
                       + (logical_index (objs ! i) - min_logical_index nbobjs objs)) = Some 1
            \<longleftrightarrow> osmatrix ! (i * nbobjs + i) = latency_base d)"
proof -
  have "latency_base d \<noteq> 0"
    using normalize_attached(3,5) [OF assms(2,1)] by simp
  with normalize_attached_entry
    [of hwloc_get_obj_covering_cpuset nbobjs objs root' osmatrix d i i, OF assms(1-4) assms(5) assms(5)]
  show ?thesis by auto
qed

lemmas normalize_eval =
  hwloc_setup_distances_from_os_matrix_def cpuset_union_def example_nodes_def
  example_covering_def example_topology_def min_logical_index_def min_max_def
  fill_latency_def store_def FLT_MAX_def FLT_MIN_def attach_def upt_rec numeral_2_eq_2
  Let_def insert_commute

lemma example_covered:
  "example_covering (cpuset_union 2 example_nodes) = Some (root_obj example_topology)"
  "cpuset_union 2 example_nodes = cpuset (root_obj example_topology)"
  by (simp_all add: normalize_eval)

lemma example_reindexed:
  "logical_index (example_nodes ! 0) - min_logical_index 2 example_nodes = 1"
  "logical_index (example_nodes ! 1) - min_logical_index 2 example_nodes = 0"
  by (simp_all add: normalize_eval)

lemma example_normalized:
  "hwloc_setup_distances_from_os_matrix example_covering 2 example_nodes [1, 3, 3, 2]
     = Inr (attach (root_obj example_topology)
              \<lparr>relative_depth = 1, dist_nbobjs = 2,
               latency = [Some 2, Some 3, Some 3, Some 1],
               latency_max = 3, latency_base = 1\<rparr>)"
  by (simp add: normalize_eval)

lemma example_abandoned:
  "hwloc_setup_distances_from_os_matrix example_covering 2 example_nodes [0, 3, 3, 2]
     = Inr (root_obj example_topology)"
  by (simp add: normalize_eval)

theorem zero_minimum_abandons_witness:
  "example_covering (cpuset_union 2 example_nodes) = Some (root_obj example_topology)
   \<and> length [0, 3, 3, 2 :: real] = 2 * 2 \<and> (0::nat) < 2
   \<and> Min (set [0, 3, 3, 2 :: real]) = 0
   \<and> hwloc_setup_distances_from_os_matrix example_covering 2 example_nodes [0, 3, 3, 2]
       = Inr (root_obj example_topology)
   \<and> 0 < Min (set [1, 3, 3, 2 :: real])
   \<and> cpuset_union 2 example_nodes = cpuset (root_obj example_topology)
   \<and> logical_index (example_nodes ! 0) - min_logical_index 2 example_nodes < 2
   \<and> logical_index (example_nodes ! 1) - min_logical_index 2 example_nodes < 2
   \<and> hwloc_setup_distances_from_os_matrix example_covering 2 example_nodes [1, 3, 3, 2]
       = Inr (attach (root_obj example_topology)
                \<lparr>relative_depth = 1, dist_nbobjs = 2,
                 latency = [Some 2, Some 3, Some 3, Some 1],
                 latency_max = 3, latency_base = 1\<rparr>)"
  using zero_minimum_abandons [of example_covering 2 example_nodes "root_obj example_topology"
      "[0, 3, 3, 2]"]
    zero_minimum_abandons [of example_covering 2 example_nodes "root_obj example_topology"
      "[1, 3, 3, 2]"]
    example_covered example_reindexed example_normalized example_abandoned
  by simp

text \<open>
  C7.  The two nodes with processors of the machine above, with the raw matrix of rows
  (1, 3) and (3, 2): the smallest raw entry is 1, and the cpuset of the covering object
  equals the union of the cpusets of the two nodes.  The second node is reindexed to row
  and column \<open>2 - 0 = 2\<close>, and the cell \<open>2 * 2 + 0\<close> written for it lies outside the
  \<open>2 * 2\<close> cells of the new matrix: the call does not end with a record attached, it
  writes out of the bounds of the matrix.  (With a smallest raw entry of 0 the call
  abandons, as \<open>zero_minimum_abandons\<close> shows.)
\<close>

theorem sparse_nodes_out_of_bounds:
  "sparse_covering (cpuset_union 2 sparse_nodes) = Some sparse_machine
   \<and> cpuset_union 2 sparse_nodes = cpuset sparse_machine
   \<and> 0 < Min (set [1, 3, 3, 2 :: real])
   \<and> min_logical_index 2 sparse_nodes = 0
   \<and> (logical_index (sparse_nodes ! 1) - min_logical_index 2 sparse_nodes) * 2
       + (logical_index (sparse_nodes ! 0) - min_logical_index 2 sparse_nodes) = 4
   \<and> hwloc_setup_distances_from_os_matrix sparse_covering 2 sparse_nodes [1, 3, 3, 2]
       = Inl OutOfBounds"
  by (simp add: hwloc_setup_distances_from_os_matrix_def cpuset_union_def sparse_nodes_def
        sparse_covering_def sparse_machine_def min_logical_index_def min_max_def
        fill_latency_def store_def FLT_MAX_def FLT_MIN_def upt_rec numeral_2_eq_2
        Let_def insert_commute)

text \<open>
  C2 as stated fails: the raw matrix with rows (1, 3) and (3, 2) is symmetric, each diagonal
  entry is the strict minimum of its row, the normalization succeeds with base 1, and the
  stored diagonal entry (0, 0) is 2.
\<close>

theorem diagonal_not_one:
  "hwloc_setup_distances_from_os_matrix example_covering 2 example_nodes [1, 3, 3, 2]
     = Inr (attach (root_obj example_topology)
              \<lparr>relative_depth = 1, dist_nbobjs = 2,
               latency = [Some 2, Some 3, Some 3, Some 1],
               latency_max = 3, latency_base = 1\<rparr>)
   \<and> [Some 2, Some 3, Some 3, Some (1 :: real)] ! (0 * 2 + 0) = Some 2
   \<and> [Some 2, Some 3, Some 3, Some (1 :: real)] ! (0 * 2 + 0) \<noteq> Some 1"
  using example_normalized by simp

theorem normalized_diagonal_witness:
  "example_covering (cpuset_union 2 example_nodes) = Some (root_obj example_topology)
   \<and> hwloc_setup_distances_from_os_matrix example_covering 2 example_nodes [1, 3, 3, 2]
       = Inr (attach (root_obj example_topology)
                \<lparr>relative_depth = 1, dist_nbobjs = 2,
                 latency = [Some 2, Some 3, Some 3, Some 1],
                 latency_max = 3, latency_base = 1\<rparr>)
   \<and> distinct (map logical_index (take 2 example_nodes))
   \<and> 2 \<le> length example_nodes \<and> (1::nat) < 2
   \<and> [Some 2, Some 3, Some 3, Some (1 :: real)]
        ! ((logical_index (example_nodes ! 1) - min_logical_index 2 example_nodes) * 2
           + (logical_index (example_nodes ! 1) - min_logical_index 2 example_nodes))
       = Some ([1, 3, 3, 2] ! (1 * 2 + 1) / 1)"
  using normalized_diagonal [of example_covering 2 example_nodes "root_obj example_topology"
      "[1, 3, 3, 2]"
      "\<lparr>relative_depth = 1, dist_nbobjs = 2, latency = [Some 2, Some 3, Some 3, Some 1],
        latency_max = 3, latency_base = 1\<rparr>" 1]
    example_covered example_reindexed example_normalized
  by (simp add: example_nodes_def)

text \<open>
  C5.  A raw matrix of positive values below \<open>FLT_MIN\<close> (subnormal floats): the running
  maximum starts at \<open>FLT_MIN\<close>, no entry exceeds it, and \<open>latency_max\<close> is
  \<open>FLT_MIN / min = 16\<close>, while the raw maximum divided by the minimum is 2.  The entries and
  \<open>latency_base\<close> are as claimed (see \<open>normalize_attached_entry\<close> and
  \<open>normalize_attached\<close>).
\<close>

theorem latency_max_of_tiny_values:
  "hwloc_setup_distances_from_os_matrix example_covering 2 example_nodes
     [1 / 2 ^ 130, 1 / 2 ^ 129, 1 / 2 ^ 129, 1 / 2 ^ 130]
     = Inr (attach (root_obj example_topology)
              \<lparr>relative_depth = 1, dist_nbobjs = 2,
               latency = [Some 1, Some 2, Some 2, Some 1],
               latency_max = 16, latency_base = 1 / 2 ^ 130\<rparr>)
   \<and> Max (set [1 / 2 ^ 130, 1 / 2 ^ 129, 1 / 2 ^ 129, 1 / 2 ^ 130 :: real])
       / Min (set [1 / 2 ^ 130, 1 / 2 ^ 129, 1 / 2 ^ 129, 1 / 2 ^ 130 :: real]) = 2"
  by (simp add: normalize_eval)

section \<open>Properties of the parser\<close>

lemma example_counted: "count_indexes ''0,1,2,3:2*2'' 0 = ('':2*2'', 4)"
  by (simp add: count_indexes.simps strspn_def char_at_def)

lemma upt_0_4: "[0..<4] = [0, 1, 2, 3]"
  by (simp add: upt_rec)

lemma replicate_4: "replicate 4 (0 :: nat) = [0, 0, 0, 0]"
  by (simp add: eval_nat_numeral)

lemma example_parsed:
  "parse_indexes example_strtoul [0..<4] ''0,1,2,3:2*2'' (replicate 4 0) = ([0, 1, 2, 3], ''2*2'')"
  by (simp add: upt_rec example_strtoul_def replicate_4)

lemma example_grouping:
  "grouping_distances 4 2 1 = [1, 4, 8, 8,  4, 1, 8, 8,  8, 8, 1, 4,  8, 8, 4, 1]"
  by code_simp

lemma count_indexes_pos: "count_indexes tmp k = (rest, nbobjs) \<Longrightarrow> k < nbobjs"
proof (induction tmp k rule: count_indexes.induct)
  case (1 tmp nbobjs')
  show ?case
  proof (cases "char_at tmp (strspn tmp ''0123456789'') \<noteq> CHR '',''")
    case True
    with "1.prems" show ?thesis
      by (subst (asm) count_indexes.simps) (simp add: Let_def)
  next
    case False
    with "1.prems" have "count_indexes (drop (strspn tmp ''0123456789'' + 1) tmp) (nbobjs' + 1)
        = (rest, nbobjs)"
      by (subst (asm) count_indexes.simps) (simp add: Let_def)
    from "1.IH" [OF refl _ this] False show ?thesis by simp
  qed
qed

lemma parse_indexes_length:
  "length (fst (parse_indexes strtoul is tmp indexes)) = length indexes"
  by (induction "is" arbitrary: tmp indexes) simp_all

lemma grouping_distances_entries:
  "length (grouping_distances nbobjs y z) = nbobjs * nbobjs"
  "i < nbobjs \<Longrightarrow> j < nbobjs \<Longrightarrow>
     grouping_distances nbobjs y z ! (i * nbobjs + j) =
       (if i = j then 1
        else if i div z = j div z then 2
        else if i div (z * y) = j div (z * y) then 4
        else 8)"
proof -
  define G :: "nat \<Rightarrow> nat \<Rightarrow> real" where
    "G i j = (if i = j then 1 else if i div z = j div z then 2
              else if i div z div y = j div z div y then 4 else 8)" for i j
  define F :: "nat \<Rightarrow> real list \<Rightarrow> real list" where
    "F k distances = distances[k := G (k div nbobjs) (k mod nbobjs)]" for k distances
  have inner: "fold (\<lambda>j distances. distances[i * nbobjs + j := G i j]) [0..<nbobjs]
      = fold (\<lambda>j. F (i * nbobjs + j)) [0..<nbobjs]" for i
  proof
    fix s show "fold (\<lambda>j distances. distances[i * nbobjs + j := G i j]) [0..<nbobjs] s
      = fold (\<lambda>j. F (i * nbobjs + j)) [0..<nbobjs] s"
      by (rule fold_cong) (auto simp: F_def)
  qed
  have "grouping_distances nbobjs y z
      = fold (\<lambda>i. fold (\<lambda>j distances. distances[i * nbobjs + j := G i j]) [0..<nbobjs])
          [0..<nbobjs] (replicate (nbobjs * nbobjs) 0)"
    by (simp add: grouping_distances_def G_def)
  also have "\<dots> = fold (\<lambda>i. fold (\<lambda>j. F (i * nbobjs + j)) [0..<nbobjs])
          [0..<nbobjs] (replicate (nbobjs * nbobjs) 0)"
    by (simp add: inner)
  also have "\<dots> = fold F [0..<nbobjs * nbobjs] (replicate (nbobjs * nbobjs) 0)"
    by (rule nested_fold_flat)
  also have "F = (\<lambda>k distances. distances[k := G (k div nbobjs) (k mod nbobjs)])"
    by (intro ext) (simp add: F_def)
  finally have flat: "grouping_distances nbobjs y z
      = fold (\<lambda>k distances. distances[k := G (k div nbobjs) (k mod nbobjs)])
          [0..<nbobjs * nbobjs] (replicate (nbobjs * nbobjs) 0)" .
  show "length (grouping_distances nbobjs y z) = nbobjs * nbobjs"
    unfolding flat by (simp add: fold_update_length)
  show "grouping_distances nbobjs y z ! (i * nbobjs + j) =
       (if i = j then 1
        else if i div z = j div z then 2
        else if i div (z * y) = j div (z * y) then 4
        else 8)" if ij: "i < nbobjs" "j < nbobjs"
  proof -
    from ij have k: "i * nbobjs + j < nbobjs * nbobjs" by (rule flat_index_less)
    then have "grouping_distances nbobjs y z ! (i * nbobjs + j)
        = G ((i * nbobjs + j) div nbobjs) ((i * nbobjs + j) mod nbobjs)"
      unfolding flat by (subst fold_update_nth) simp_all
    also from ij have "\<dots> = G i j" by simp
    finally show ?thesis by (simp add: G_def div_mult2_eq)
  qed
qed

lemma parse_indexes_unsigned:
  assumes "\<forall>k \<in> set indexes. k < 4294967296"
  shows "\<forall>k \<in> set (fst (parse_indexes strtoul is tmp indexes)). k < 4294967296"
  using assms
proof (induction "is" arbitrary: tmp indexes)
  case Nil
  then show ?case by simp
next
  case (Cons i rest)
  have "\<forall>k \<in> set (indexes[i := fst (strtoul tmp) mod 4294967296]). k < 4294967296"
  proof
    fix k assume "k \<in> set (indexes[i := fst (strtoul tmp) mod 4294967296])"
    then have "k \<in> insert (fst (strtoul tmp) mod 4294967296) (set indexes)"
      using set_update_subset_insert by fastforce
    with Cons.prems show "k < 4294967296" by auto
  qed
  from Cons.IH [OF this] show ?case by simp
qed

text \<open>
  An index that does not fit an \<open>unsigned\<close> is stored modulo \<open>2^32\<close>: in
  \<open>4294967296,0:2*1\<close> the two indexes are both stored as 0, and the string is ignored.
\<close>

lemma wide_index_ignored:
  "parse_indexes wide_strtoul [0..<2] ''4294967296,0:2*1'' (replicate 2 0) = ([0, 0], ''2*1'')"
  "hwloc_get_type_distances_from_string wide_strtoul wide_sscanf example_strtof topology type
     ''4294967296,0:2*1'' = topology"
proof -
  have counted: "count_indexes ''4294967296,0:2*1'' 0 = ('':2*1'', 2)"
    by (simp add: count_indexes.simps strspn_def char_at_def)
  show parsed: "parse_indexes wide_strtoul [0..<2] ''4294967296,0:2*1'' (replicate 2 0)
      = ([0, 0], ''2*1'')"
    by (simp add: upt_rec wide_strtoul_def numeral_2_eq_2)
  have "same_index_twice 2 [0, 0]"
    using same_index_twice_distinct [of "[0, 0]" 2] by simp
  then show "hwloc_get_type_distances_from_string wide_strtoul wide_sscanf example_strtof
      topology type ''4294967296,0:2*1'' = topology"
    by (simp add: hwloc_get_type_distances_from_string_def counted parsed char_at_def
          wide_sscanf_def hwloc_topology__set_distance_matrix_def Let_def)
qed

text \<open>
  C4.  For a string whose index list ends at a colon (\<open>nbobjs\<close> indexes counted), whose
  indexes as converted by \<open>strtoul\<close> and stored as \<open>unsigned\<close> are distinct, and whose body \<open>sscanf\<close> reads as
  \<open>X*Y\<close> (then \<open>Z = 1\<close>) or \<open>X*Y*Z\<close> with \<open>X*Y*Z == nbobjs\<close> in unsigned arithmetic:
  the parser stores for the type the count, the indexes and a matrix of
  \<open>nbobjs * nbobjs\<close> entries, with entry \<open>(i, j)\<close> equal to 1 when \<open>i = j\<close>, else 2 when
  \<open>i/Z = j/Z\<close>, else 4 when \<open>i/(Z*Y) = j/(Z*Y)\<close>, else 8 (\<open>Y\<close> and \<open>Z\<close> are not 0, so
  nothing is divided by 0).  For 4 indexes and \<open>2*2\<close> the matrix has diagonal 1, entries
  (0,1) and (2,3) equal to 4 and all cross pairs equal to 8.
\<close>

theorem shorthand_matrix:
  assumes counted: "count_indexes string' 0 = (rest, nbobjs)"
    and colon: "char_at rest 0 = CHR '':''"
    and parsed: "parse_indexes strtoul [0..<nbobjs] string' (replicate nbobjs 0) = (indexes, body)"
    and scanned: "sscanf body = [x, y] \<and> z = 1 \<or> sscanf body = [x, y, z]"
    and product: "(x * y * z) mod 4294967296 = nbobjs"
    and distinct: "distinct indexes"
  shows "\<exists>distances.
           os_distances (hwloc_get_type_distances_from_string strtoul sscanf strtof topology type
                           string') type
             = (os_distances topology type)
                 \<lparr>osd_nbobjs := nbobjs, osd_indexes := Some indexes,
                  osd_distances := Some distances\<rparr>
         \<and> length distances = nbobjs * nbobjs
         \<and> 0 < y \<and> 0 < z
         \<and> (\<forall>i < nbobjs. \<forall>j < nbobjs.
               distances ! (i * nbobjs + j) =
                 (if i = j then 1
                  else if i div z = j div z then 2
                  else if i div (z * y) = j div (z * y) then 4
                  else 8))
         \<and> (nbobjs = 4 \<and> y = 2 \<and> z = 1 \<longrightarrow>
               distances = [1, 4, 8, 8,  4, 1, 8, 8,  8, 8, 1, 4,  8, 8, 4, 1])"
proof -
  from count_indexes_pos [OF counted] have pos: "0 < nbobjs" .
  with product have "x * y * z \<noteq> 0" by (intro notI) simp
  then have yz: "0 < y" "0 < z" by simp_all
  have len: "length indexes = nbobjs"
    using parse_indexes_length [of strtoul "[0..<nbobjs]" string' "replicate nbobjs 0"] parsed
    by simp
  have "\<not> same_index_twice nbobjs indexes"
    using same_index_twice_distinct [OF len] distinct by simp
  then have set: "hwloc_topology__set_distance_matrix topology type nbobjs indexes
        (grouping_distances nbobjs y z)
      = (Inr (), topology\<lparr>os_distances := (os_distances topology)
              (type := (os_distances topology type)
                 \<lparr>osd_nbobjs := nbobjs, osd_indexes := Some indexes,
                  osd_distances := Some (grouping_distances nbobjs y z)\<rparr>)\<rparr>)"
    by (simp add: hwloc_topology__set_distance_matrix_def)
  have "hwloc_get_type_distances_from_string strtoul sscanf strtof topology type string'
      = topology\<lparr>os_distances := (os_distances topology)
              (type := (os_distances topology type)
                 \<lparr>osd_nbobjs := nbobjs, osd_indexes := Some indexes,
                  osd_distances := Some (grouping_distances nbobjs y z)\<rparr>)\<rparr>"
    using scanned product set
    by (auto simp: hwloc_get_type_distances_from_string_def counted colon parsed Let_def)
  then have slot: "os_distances (hwloc_get_type_distances_from_string strtoul sscanf strtof
        topology type string') type
      = (os_distances topology type)
          \<lparr>osd_nbobjs := nbobjs, osd_indexes := Some indexes,
           osd_distances := Some (grouping_distances nbobjs y z)\<rparr>"
    by simp
  have small: "nbobjs = 4 \<and> y = 2 \<and> z = 1 \<longrightarrow>
      grouping_distances nbobjs y z = [1, 4, 8, 8,  4, 1, 8, 8,  8, 8, 1, 4,  8, 8, 4, 1]"
    using example_grouping by simp
  have entries: "\<forall>i < nbobjs. \<forall>j < nbobjs.
      grouping_distances nbobjs y z ! (i * nbobjs + j) =
        (if i = j then 1
         else if i div z = j div z then 2
         else if i div (z * y) = j div (z * y) then 4
         else 8)"
    using grouping_distances_entries(2) by blast
  from slot grouping_distances_entries(1) yz entries small show ?thesis
    by (intro exI [of _ "grouping_distances nbobjs y z"] conjI)
qed

theorem shorthand_matrix_witness:
  "count_indexes ''0,1,2,3:2*2'' 0 = ('':2*2'', 4)
   \<and> char_at '':2*2'' 0 = CHR '':''
   \<and> parse_indexes example_strtoul [0..<4] ''0,1,2,3:2*2'' (replicate 4 0)
       = ([0, 1, 2, 3], ''2*2'')
   \<and> example_sscanf ''2*2'' = [2, 2]
   \<and> (2 * 2 * 1) mod 4294967296 = (4::nat)
   \<and> distinct [0, 1, 2, 3 :: nat]
   \<and> os_distances (hwloc_get_type_distances_from_string example_strtoul example_sscanf
                      example_strtof example_topology 2 ''0,1,2,3:2*2'') 2
       = \<lparr>osd_nbobjs = 4, osd_objs = None, osd_indexes = Some [0, 1, 2, 3],
          osd_distances = Some [1, 4, 8, 8,  4, 1, 8, 8,  8, 8, 1, 4,  8, 8, 4, 1]\<rparr>"
  using shorthand_matrix [of "''0,1,2,3:2*2''" "'':2*2''" 4 example_strtoul "[0, 1, 2, 3]"
      "''2*2''" example_sscanf 2 2 1 example_strtof example_topology 2]
    example_counted example_parsed
  by (auto simp: char_at_def example_sscanf_def example_topology_def)

end
